theory Spec2Isabelle
  imports Complex_Main "HOL-Library.Sublist"
begin

section \<open>Data model of \<^verbatim>\<open>util/geo.py\<close>\<close>

text \<open>
  The module works on GeoJSON-shaped Python dictionaries. A position is a pair of floats
  (longitude, latitude), idealised here as a pair of reals. The value stored under
  \<^verbatim>\<open>'coordinates'\<close> is a nested Python list whose depth depends on the geometry kind (and,
  for the multi-polygons this module builds, on the depth of the recursion), so it is a
  tree. \<open>Null\<close> is Python's \<^verbatim>\<open>None\<close>, with which the line buffer pre-fills its result.
\<close>

type_synonym coord = "real \<times> real"

datatype coords = Null | Position coord | Array "coords list"

record geometry =
  gtype :: string
  coordinates :: coords

text \<open>
  \<open>Feature g\<close> is the dictionary \<^verbatim>\<open>{"type": "Feature", "properties": {}, "geometry": g}\<close>
  (the properties of an input feature are never read); \<open>Geometry g\<close> is the bare
  geometry dictionary \<open>g\<close>.
\<close>

datatype geojson = Feature geometry | Geometry geometry

datatype error =
    IndexError
  | KeyError
  | TypeError
  | AttributeError
  | ZeroDivisionError
  | Exception string

text \<open>
  The third-party calls the module makes, taken as parameters and assumed to return:
  \<^item> \<open>distance_meters a b\<close>: \<^verbatim>\<open>geopy.distance.distance(a, b).meters\<close> on (lat, lon) pairs;
  \<^item> \<open>inverse_azi2 lat1 lon1 lat2 lon2\<close>:
    \<^verbatim>\<open>Geodesic.WGS84.Inverse(lat1, lon1, lat2, lon2).get('azi2')\<close>;
  \<^item> \<open>wgs_to_mercator\<close>, \<open>mercator_to_wgs\<close>: the \<^verbatim>\<open>transform\<close> methods of the two global
    \<^verbatim>\<open>pyproj.Transformer\<close> objects.
\<close>

record geolib =
  distance_meters :: "coord \<Rightarrow> coord \<Rightarrow> real"
  inverse_azi2 :: "real \<Rightarrow> real \<Rightarrow> real \<Rightarrow> real \<Rightarrow> real"
  wgs_to_mercator :: "real \<Rightarrow> real \<Rightarrow> coord"
  mercator_to_wgs :: "real \<Rightarrow> real \<Rightarrow> coord"

definition DEFAULT_WIDTH :: real where
  "DEFAULT_WIDTH = 25"

section \<open>Geodesy helpers\<close>

definition abs_angular_delta :: "real \<Rightarrow> real \<Rightarrow> real" where
  "abs_angular_delta a b =
     (let delta = \<bar>a - b\<bar> in if delta \<le> 180 then delta else 360 - delta)"

definition angle_between_segments :: "geolib \<Rightarrow> coord \<Rightarrow> coord \<Rightarrow> coord \<Rightarrow> real" where
  "angle_between_segments lib p0 p1 p2 =
     (case p0 of (p0lon, p0lat) \<Rightarrow>
      case p1 of (p1lon, p1lat) \<Rightarrow>
      case p2 of (p2lon, p2lat) \<Rightarrow>
        let azi_a = inverse_azi2 lib p0lat p0lon p1lat p1lon;
            azi_b = inverse_azi2 lib p1lat p1lon p2lat p2lon
        in abs_angular_delta azi_a azi_b)"

section \<open>Reading coordinates\<close>

fun get_coords :: "geojson \<Rightarrow> coords" where
  "get_coords (Feature geo) = coordinates geo"
| "get_coords (Geometry geo) = coordinates geo"

text \<open>
  The code indexes, measures and unpacks the coordinates of a line string as a list of
  positions. On any other shape one of those operations (or the library call that
  receives the element) raises; the model reports every such failure as \<open>TypeError\<close>.
\<close>

fun position :: "coords \<Rightarrow> error + coord" where
  "position (Position p) = Inr p"
| "position _ = Inl TypeError"

fun positions_list :: "coords list \<Rightarrow> error + coord list" where
  "positions_list [] = Inr []"
| "positions_list (c # cs) =
     (case position c of
        Inl e \<Rightarrow> Inl e
      | Inr p \<Rightarrow> (case positions_list cs of Inl e \<Rightarrow> Inl e | Inr ps \<Rightarrow> Inr (p # ps)))"

fun positions :: "coords \<Rightarrow> error + coord list" where
  "positions (Array cs) = positions_list cs"
| "positions _ = Inl TypeError"

section \<open>Segment filter\<close>

text \<open>
  The \<^verbatim>\<open>for i in range(1, len(coords))\<close> loop of \<^verbatim>\<open>filter_small_segments\<close>: the last
  argument is what is left of \<^verbatim>\<open>coords\<close>, \<open>prev\<close> and \<open>new_coords\<close> are the loop's variables.
  \<open>filter_coords\<close> is the body of \<^verbatim>\<open>filter_small_segments\<close> after \<^verbatim>\<open>get_coords\<close>, on the list
  of positions; \<^verbatim>\<open>reversed(cur)\<close> turns (lon, lat) into (lat, lon).
\<close>

fun filter_loop :: "geolib \<Rightarrow> real \<Rightarrow> coord \<Rightarrow> coord list \<Rightarrow> coord list \<Rightarrow> coord list" where
  "filter_loop lib min_length prev new_coords [] = new_coords"
| "filter_loop lib min_length prev new_coords (cur # rest) =
     (let d = distance_meters lib (prod.swap cur) (prod.swap prev)
      in if d < min_length
         then filter_loop lib min_length prev new_coords rest
         else filter_loop lib min_length cur (new_coords @ [cur]) rest)"

definition filter_coords :: "geolib \<Rightarrow> coord list \<Rightarrow> real \<Rightarrow> coord list" where
  "filter_coords lib coords min_length =
     (if length coords < 2 then coords
      else filter_loop lib min_length (coords ! 0) [coords ! 0] (drop 1 coords))"

definition filter_small_segments :: "geolib \<Rightarrow> geojson \<Rightarrow> real \<Rightarrow> error + coord list" where
  "filter_small_segments lib linestring min_length =
     (case positions (get_coords linestring) of
        Inl e \<Rightarrow> Inl e
      | Inr coords \<Rightarrow> Inr (filter_coords lib coords min_length))"

section \<open>Point buffer\<close>

text \<open>
  \<open>polygon_feature new_coords\<close> is the dictionary both buffers return: a feature whose geometry
  is a polygon with the single ring \<open>new_coords\<close>.
\<close>

definition polygon_feature :: "coords list \<Rightarrow> geojson" where
  "polygon_feature new_coords =
     Feature \<lparr>gtype = ''Polygon'', coordinates = Array [Array new_coords]\<rparr>"

definition point_to_square :: "geolib \<Rightarrow> coord \<Rightarrow> real \<Rightarrow> geojson" where
  "point_to_square lib coord width =
     (let half_width = width / 2 in
      case wgs_to_mercator lib (fst coord) (snd coord) of (cx, cy) \<Rightarrow>
        let new_coords =
              [Position (mercator_to_wgs lib (cx - half_width) (cy - half_width)),
               Position (mercator_to_wgs lib (cx + half_width) (cy - half_width)),
               Position (mercator_to_wgs lib (cx + half_width) (cy + half_width)),
               Position (mercator_to_wgs lib (cx - half_width) (cy + half_width))]
        in polygon_feature (new_coords @ [new_coords ! 0]))"

section \<open>Sharp-angle splitter\<close>

text \<open>
  The \<^verbatim>\<open>for i in range(2, len(coords))\<close> loop of \<^verbatim>\<open>explode_sharp_angles\<close>. The last
  argument is \<^verbatim>\<open>coords[i - 2:]\<close>, so its first three elements are the triple the
  iteration reads; \<open>lines\<close> and \<open>cur_line\<close> are the loop's variables, and the final
  \<^verbatim>\<open>lines.append(cur_line)\<close> happens when fewer than three elements are left.
\<close>

fun explode_loop ::
  "geolib \<Rightarrow> real \<Rightarrow> coord list list \<Rightarrow> coord list \<Rightarrow> coord list \<Rightarrow> coord list list" where
  "explode_loop lib threshold lines cur_line (a # b # c # rest) =
     (let theta = angle_between_segments lib a b c
      in if theta \<le> threshold
         then explode_loop lib threshold lines (cur_line @ [c]) (b # c # rest)
         else explode_loop lib threshold (lines @ [cur_line, [b]]) [b, c] (b # c # rest))"
| "explode_loop lib threshold lines cur_line _ = lines @ [cur_line]"

definition explode_sharp_angles :: "geolib \<Rightarrow> coord list \<Rightarrow> real \<Rightarrow> coord list list" where
  "explode_sharp_angles lib coords threshold =
     (if length coords < 3 then [coords]
      else explode_loop lib threshold [] [coords ! 0, coords ! 1] coords)"

section \<open>Line buffer\<close>

text \<open>
  The direction and normal of one segment, as computed twice in
  \<^verbatim>\<open>geojson_linestring_to_poly\<close> (before and inside its loop): both end points in
  planar coordinates and the normal scaled to \<open>half_width\<close>. Python's float division
  raises on a zero magnitude.
\<close>

definition segment_normal ::
  "geolib \<Rightarrow> real \<Rightarrow> coord \<Rightarrow> coord \<Rightarrow> error + (coord \<times> coord \<times> coord)" where
  "segment_normal lib half_width c0 c1 =
     (case wgs_to_mercator lib (fst c0) (snd c0) of (p0x, p0y) \<Rightarrow>
      case wgs_to_mercator lib (fst c1) (snd c1) of (p1x, p1y) \<Rightarrow>
        let dx = p1x - p0x;
            dy = p1y - p0y;
            mag = sqrt (dx ^ 2 + dy ^ 2)
        in if mag = 0 then Inl ZeroDivisionError
           else let dx = dx / mag;
                    dy = dy / mag
                in Inr ((p0x, p0y), (p1x, p1y), (- dy * half_width, dx * half_width)))"

text \<open>
  Item assignment \<^verbatim>\<open>xs[i] = v\<close>. The indices the line buffer computes are never
  negative (the largest subtrahend is \<open>len\<close>, taken from \<open>2 * len\<close>), so they are naturals.
\<close>

definition set_item :: "'a list \<Rightarrow> nat \<Rightarrow> 'a \<Rightarrow> error + 'a list" where
  "set_item xs i v = (if i < length xs then Inr (xs[i := v]) else Inl IndexError)"

text \<open>
  The \<^verbatim>\<open>for i in range(1, len(filtered_coords))\<close> loop. The list argument is
  \<^verbatim>\<open>filtered_coords[i - 1:]\<close>: its first two elements are the segment of iteration \<open>i\<close>.
\<close>

fun offset_loop ::
  "geolib \<Rightarrow> real \<Rightarrow> nat \<Rightarrow> nat \<Rightarrow> coord list \<Rightarrow> coords list \<Rightarrow> error + coords list" where
  "offset_loop lib half_width n i (c0 # c1 # rest) new_coords =
     (case segment_normal lib half_width c0 c1 of
        Inl e \<Rightarrow> Inl e
      | Inr (p0, p1, nrm) \<Rightarrow>
          (case set_item new_coords i
                  (Position (mercator_to_wgs lib (fst p1 + fst nrm) (snd p1 + snd nrm))) of
             Inl e \<Rightarrow> Inl e
           | Inr new_coords \<Rightarrow>
               (case set_item new_coords (n - i - 1)
                       (Position (mercator_to_wgs lib (fst p1 - fst nrm) (snd p1 - snd nrm))) of
                  Inl e \<Rightarrow> Inl e
                | Inr new_coords \<Rightarrow>
                    offset_loop lib half_width n (i + 1) (c1 # rest) new_coords)))"
| "offset_loop lib half_width n i _ new_coords = Inr new_coords"

text \<open>The \<^verbatim>\<open>else\<close> branch of \<^verbatim>\<open>geojson_linestring_to_poly\<close> (no sharp angle).\<close>

definition offset_polygon ::
  "geolib \<Rightarrow> real \<Rightarrow> nat \<Rightarrow> coords list \<Rightarrow> coord list \<Rightarrow> error + geojson" where
  "offset_polygon lib half_width n new_coords filtered_coords =
     (case segment_normal lib half_width (filtered_coords ! 0) (filtered_coords ! 1) of
        Inl e \<Rightarrow> Inl e
      | Inr (p0, p1, nrm) \<Rightarrow>
          (case set_item new_coords 0
                  (Position (mercator_to_wgs lib (fst p0 + fst nrm) (snd p0 + snd nrm))) of
             Inl e \<Rightarrow> Inl e
           | Inr new_coords \<Rightarrow>
               (case set_item new_coords (n - 1)
                       (Position (mercator_to_wgs lib (fst p0 - fst nrm) (snd p0 - snd nrm))) of
                  Inl e \<Rightarrow> Inl e
                | Inr new_coords \<Rightarrow>
                    (case set_item new_coords n (new_coords ! 0) of
                       Inl e \<Rightarrow> Inl e
                     | Inr new_coords \<Rightarrow>
                         (case offset_loop lib half_width n 1 filtered_coords new_coords of
                            Inl e \<Rightarrow> Inl e
                          | Inr new_coords \<Rightarrow> Inr (polygon_feature new_coords))))))"

text \<open>A list comprehension whose element expression may raise: the first error wins.\<close>

fun collect :: "(error + 'a) list \<Rightarrow> error + 'a list" where
  "collect [] = Inr []"
| "collect (r # rs) =
     (case r of
        Inl e \<Rightarrow> Inl e
      | Inr x \<Rightarrow> (case collect rs of Inl e \<Rightarrow> Inl e | Inr xs \<Rightarrow> Inr (x # xs)))"

text \<open>\<^verbatim>\<open>poly.get('geometry').get('coordinates')\<close>: a bare geometry has no such key.\<close>

fun geometry_coordinates :: "geojson \<Rightarrow> error + coords" where
  "geometry_coordinates (Feature geo) = Inr (coordinates geo)"
| "geometry_coordinates (Geometry geo) = Inl AttributeError"

text \<open>
  The dictionaries of the split branch: \<^verbatim>\<open>{"type": "LineString", "coordinates": line}\<close> for
  a piece, and the multi-polygon feature that holds the coordinates of every piece's result.
\<close>

definition linestring_of :: "coord list \<Rightarrow> geojson" where
  "linestring_of line = Geometry \<lparr>gtype = ''LineString'', coordinates = Array (map Position line)\<rparr>"

definition multipolygon_feature :: "coords list \<Rightarrow> geojson" where
  "multipolygon_feature polys =
     Feature \<lparr>gtype = ''MultiPolygon'', coordinates = Array polys\<rparr>"

text \<open>
  Facts for the termination of the recursion of \<^verbatim>\<open>geojson_linestring_to_poly\<close>: the
  filter never lengthens a line, and when the splitter returns more than one piece, each
  piece is shorter than the line it was cut from.
\<close>

lemma positions_list_map_Position: "positions_list (map Position line) = Inr line"
  by (induction line) auto

lemma positions_linestring_of: "positions (get_coords (linestring_of line)) = Inr line"
  by (simp add: linestring_of_def positions_list_map_Position)

lemma filter_loop_acc:
  "filter_loop lib m prev acc xs = acc @ filter_loop lib m prev [] xs"
proof (induction xs arbitrary: prev acc)
  case Nil
  show ?case by simp
next
  case (Cons cur rest)
  show ?case
    using Cons.IH [of prev acc] Cons.IH [of cur "acc @ [cur]"] Cons.IH [of cur "[cur]"]
    by (simp add: Let_def)
qed

lemma filter_loop_length:
  "length (filter_loop lib m prev acc xs) \<le> length acc + length xs"
proof (induction xs arbitrary: prev acc)
  case Nil
  show ?case by simp
next
  case (Cons cur rest)
  show ?case
    using Cons.IH [of prev acc] Cons.IH [of cur "acc @ [cur]"]
    by (simp add: Let_def)
qed

lemma filter_coords_length: "length (filter_coords lib cs m) \<le> length cs"
proof (cases "length cs < 2")
  case True
  then show ?thesis by (simp add: filter_coords_def)
next
  case False
  then have "length (filter_loop lib m (cs ! 0) [cs ! 0] (drop 1 cs)) \<le> 1 + (length cs - 1)"
    using filter_loop_length [of lib m "cs ! 0" "[cs ! 0]" "drop 1 cs"] by simp
  with False show ?thesis by (simp add: filter_coords_def)
qed

lemma explode_loop_pieces:
  "l \<in> set (explode_loop lib th lines cur xs) \<Longrightarrow> 2 \<le> length cur \<Longrightarrow> 2 \<le> length xs \<Longrightarrow>
     l \<in> set lines
     \<or> (explode_loop lib th lines cur xs = lines @ [l] \<and> length l + 2 \<le> length cur + length xs)
     \<or> length l + 2 < length cur + length xs"
proof (induction lib th lines cur xs rule: explode_loop.induct)
  case (1 lib threshold lines cur_line a b c rest)
  show ?case
  proof (cases "angle_between_segments lib a b c \<le> threshold")
    case True
    with 1 show ?thesis by (auto simp: Let_def)
  next
    case False
    with 1 show ?thesis by (auto simp: Let_def)
  qed
qed auto

lemma explode_piece_shorter:
  assumes "1 < length (explode_sharp_angles lib cs th)"
    and "l \<in> set (explode_sharp_angles lib cs th)"
  shows "length l < length cs"
proof -
  from assms(1) have len: "\<not> length cs < 3"
    by (auto simp: explode_sharp_angles_def)
  then have eq: "explode_sharp_angles lib cs th = explode_loop lib th [] [cs ! 0, cs ! 1] cs"
    by (simp add: explode_sharp_angles_def)
  from len have "2 \<le> length cs" by simp
  with explode_loop_pieces [of l lib th "[]" "[cs ! 0, cs ! 1]" cs] assms eq
  show ?thesis by auto
qed

text \<open>
  \<^verbatim>\<open>geojson_linestring_to_poly\<close>. The recursive call passes no width, so every piece is
  buffered with \<^verbatim>\<open>DEFAULT_WIDTH\<close>; the splitter is called with its default threshold 45.
\<close>

function geojson_linestring_to_poly :: "geolib \<Rightarrow> geojson \<Rightarrow> real \<Rightarrow> error + geojson" where
  "geojson_linestring_to_poly lib linestring width =
     (case filter_small_segments lib linestring width of
        Inl e \<Rightarrow> Inl e
      | Inr filtered_coords \<Rightarrow>
          let half_width = width / 2;
              n = 2 * length filtered_coords;
              new_coords = replicate (n + 1) Null
          in if length filtered_coords < 2
             then (case filtered_coords of
                     [] \<Rightarrow> Inl IndexError
                   | c # _ \<Rightarrow> Inr (point_to_square lib c width))
             else let lines = explode_sharp_angles lib filtered_coords 45
                  in if length lines > 1
                     then (case collect (map (\<lambda>line. geojson_linestring_to_poly lib (linestring_of line) DEFAULT_WIDTH) lines) of
                             Inl e \<Rightarrow> Inl e
                           | Inr polys \<Rightarrow>
                               (case collect (map geometry_coordinates polys) of
                                  Inl e \<Rightarrow> Inl e
                                | Inr cs \<Rightarrow> Inr (multipolygon_feature cs)))
                     else offset_polygon lib half_width n new_coords filtered_coords)"
  by pat_completeness auto
termination
proof (relation "measure (\<lambda>(lib, ls, w). case positions (get_coords ls) of Inl e \<Rightarrow> 0 | Inr cs \<Rightarrow> length cs)")
  show "wf (measure (\<lambda>(lib, ls, w). case positions (get_coords ls) of Inl e \<Rightarrow> 0 | Inr cs \<Rightarrow> length cs))"
    by simp
next
  fix lib linestring width filtered_coords half_width n new_coords lines line
  assume f: "filter_small_segments lib linestring width = Inr filtered_coords"
    and "lines = explode_sharp_angles lib filtered_coords 45"
    and "1 < length lines" and "line \<in> set lines"
  then have "length line < length filtered_coords"
    using explode_piece_shorter by blast
  moreover from f obtain cs where "positions (get_coords linestring) = Inr cs"
    and "filtered_coords = filter_coords lib cs width"
    by (auto simp: filter_small_segments_def split: sum.splits)
  ultimately show "((lib, linestring_of line, DEFAULT_WIDTH), (lib, linestring, width))
      \<in> measure (\<lambda>(lib, ls, w). case positions (get_coords ls) of Inl e \<Rightarrow> 0 | Inr cs \<Rightarrow> length cs)"
    using filter_coords_length [of lib cs width]
    by (simp add: positions_linestring_of)
qed

section \<open>Dispatcher\<close>

definition geojson_point_to_poly :: "geolib \<Rightarrow> geojson \<Rightarrow> real \<Rightarrow> error + geojson" where
  "geojson_point_to_poly lib point width =
     (case position (get_coords point) of
        Inl e \<Rightarrow> Inl e
      | Inr coord \<Rightarrow> Inr (point_to_square lib coord width))"

text \<open>
  \<^verbatim>\<open>feature['geometry']\<close> raises \<open>KeyError\<close> on a dictionary without that key (a bare
  geometry).
\<close>

fun convert_to_geojson_poly :: "geolib \<Rightarrow> geojson \<Rightarrow> real \<Rightarrow> error + geojson" where
  "convert_to_geojson_poly lib (Geometry g) width = Inl KeyError"
| "convert_to_geojson_poly lib (Feature geom) width =
     (let t = gtype geom
      in if t = ''LineString'' then geojson_linestring_to_poly lib (Geometry geom) width
         else if t = ''Point'' then geojson_point_to_poly lib (Geometry geom) width
         else if t = ''Polygon'' \<or> t = ''MultiPolygon'' then Inr (Geometry geom)
         else Inl (Exception (''Unsupported type: '' @ t)))"

section \<open>A concrete library instance\<close>

text \<open>
  The theorems below hold for every \<open>geolib\<close>. To run the functions on explicit inputs
  one instance is fixed: a flat earth whose projection is the identity, whose distance is
  Euclidean, and whose azimuth is a compass quantised to the eight principal directions
  (0 is north, 90 east, measured clockwise, in (-180, 180] as \<^verbatim>\<open>azi2\<close> is).
\<close>

definition compass :: "real \<Rightarrow> real \<Rightarrow> real \<Rightarrow> real \<Rightarrow> real" where
  "compass lat1 lon1 lat2 lon2 =
     (if lon2 = lon1 then (if lat1 \<le> lat2 then 0 else 180)
      else if lat2 = lat1 then (if lon1 < lon2 then 90 else - 90)
      else if lon1 < lon2 then (if lat1 < lat2 then 45 else 135)
      else (if lat1 < lat2 then - 45 else - 135))"

definition flat_lib :: geolib where
  "flat_lib =
     \<lparr>distance_meters = (\<lambda>a b. sqrt ((fst a - fst b) ^ 2 + (snd a - snd b) ^ 2)),
      inverse_azi2 = compass,
      wgs_to_mercator = Pair,
      mercator_to_wgs = Pair\<rparr>"

section \<open>The segment filter in the words of the specification\<close>

text \<open>
  These two definitions follow the specification, not the code, and are compared with
  the code below. \<open>last_retained lib min_length coords i\<close> is the most recently retained
  coordinate once the coordinates at indices \<open>0..i\<close> have been seen: the first coordinate
  to begin with, then every coordinate whose distance from the last retained one is at
  least \<open>min_length\<close>. The coordinate at index \<open>i\<close> is \<open>retained\<close> when it is the first one,
  or when its distance from the coordinate last retained before it is at least
  \<open>min_length\<close>.
\<close>

fun last_retained :: "geolib \<Rightarrow> real \<Rightarrow> coord list \<Rightarrow> nat \<Rightarrow> coord" where
  "last_retained lib min_length coords 0 = coords ! 0"
| "last_retained lib min_length coords (Suc i) =
     (if min_length \<le> distance_meters lib (prod.swap (coords ! Suc i))
                        (prod.swap (last_retained lib min_length coords i))
      then coords ! Suc i
      else last_retained lib min_length coords i)"

definition retained :: "geolib \<Rightarrow> real \<Rightarrow> coord list \<Rightarrow> nat \<Rightarrow> bool" where
  "retained lib min_length coords i =
     (case i of
        0 \<Rightarrow> True
      | Suc j \<Rightarrow> min_length \<le> distance_meters lib (prod.swap (coords ! i))
                               (prod.swap (last_retained lib min_length coords j)))"

section \<open>Offsets in the words of the specification\<close>

text \<open>
  These two definitions follow the specification (section 4.5), not the code, and are
  compared with the code below. \<open>unit_normal lib c0 c1\<close> is the left-hand unit normal
  \<open>(-d.y, d.x)\<close> of the planar segment from \<open>c0\<close> to \<open>c1\<close>, where \<open>d\<close> is the direction
  normalised to unit length. \<open>displaced lib c d u\<close> is the coordinate \<open>c\<close> moved, in the
  plane, by \<open>d\<close> times the vector \<open>u\<close>, and converted back to geographic space.
\<close>

definition unit_normal :: "geolib \<Rightarrow> coord \<Rightarrow> coord \<Rightarrow> coord" where
  "unit_normal lib c0 c1 =
     (let p0 = wgs_to_mercator lib (fst c0) (snd c0);
          p1 = wgs_to_mercator lib (fst c1) (snd c1);
          dx = fst p1 - fst p0;
          dy = snd p1 - snd p0;
          mag = sqrt (dx ^ 2 + dy ^ 2)
      in (- dy / mag, dx / mag))"

definition displaced :: "geolib \<Rightarrow> coord \<Rightarrow> real \<Rightarrow> coord \<Rightarrow> coords" where
  "displaced lib c d u =
     (let p = wgs_to_mercator lib (fst c) (snd c)
      in Position (mercator_to_wgs lib (fst p + d * fst u) (snd p + d * snd u)))"

section \<open>Rings of a result\<close>

text \<open>
  To speak of ``every ring produced'': a ring of a coordinates tree is a list at its
  lowest level, that is, an array none of whose elements is itself an array. The
  coordinates of a polygon hold one ring; those of the multi-polygons built by
  \<^verbatim>\<open>geojson_linestring_to_poly\<close> hold the rings of every piece, at any depth. A ring is
  closed when it has at least four entries, all of them positions, the first equal to the
  last.
\<close>

fun is_position :: "coords \<Rightarrow> bool" where
  "is_position (Position p) = True"
| "is_position _ = False"

fun is_array :: "coords \<Rightarrow> bool" where
  "is_array (Array cs) = True"
| "is_array _ = False"

fun rings :: "coords \<Rightarrow> coords list list" where
  "rings (Array cs) = (if list_ex is_array cs then concat (map rings cs) else [cs])"
| "rings _ = []"

definition closed_ring :: "coords list \<Rightarrow> bool" where
  "closed_ring r = (4 \<le> length r \<and> hd r = last r \<and> list_all is_position r)"

section \<open>Shared lemmas\<close>

declare geojson_linestring_to_poly.simps [simp del]

lemma flat_simps:
  "inverse_azi2 flat_lib = compass" "wgs_to_mercator flat_lib = Pair" "mercator_to_wgs flat_lib = Pair"
  "distance_meters flat_lib = (\<lambda>a b. sqrt ((fst a - fst b) ^ 2 + (snd a - snd b) ^ 2))"
  by (simp_all add: flat_lib_def)

lemma collect_Inl: "collect rs = Inl e \<Longrightarrow> Inl e \<in> set rs"
  by (induction rs) (auto split: sum.splits)

lemma positions_list_error: "positions_list cs = Inl e \<Longrightarrow> e = TypeError"
  by (induction cs) (auto split: sum.splits elim: position.elims)

lemma positions_error: "positions c = Inl e \<Longrightarrow> e = TypeError"
  by (cases c) (auto dest: positions_list_error)

lemma filter_small_segments_error: "filter_small_segments lib ls m = Inl e \<Longrightarrow> e = TypeError"
  by (auto simp: filter_small_segments_def split: sum.splits dest: positions_error)

lemma segment_normal_error: "segment_normal lib hw c0 c1 = Inl e \<Longrightarrow> e = ZeroDivisionError"
  by (auto simp: segment_normal_def Let_def split: prod.splits if_splits)

lemma set_item_error: "set_item xs i v = Inl e \<Longrightarrow> e = IndexError"
  by (auto simp: set_item_def split: if_splits)

lemma offset_loop_error:
  "offset_loop lib hw n i cs nc = Inl e \<Longrightarrow> e = ZeroDivisionError \<or> e = IndexError"
  by (induction lib hw n i cs nc rule: offset_loop.induct)
     (auto split: sum.splits prod.splits dest: segment_normal_error set_item_error)

lemma offset_polygon_error:
  "offset_polygon lib hw n nc cs = Inl e \<Longrightarrow> e = ZeroDivisionError \<or> e = IndexError"
  by (auto simp: offset_polygon_def split: sum.splits prod.splits
           dest: segment_normal_error set_item_error offset_loop_error)

lemma geometry_coordinates_error: "geometry_coordinates p = Inl e \<Longrightarrow> e = AttributeError"
  by (cases p) auto

lemma linestring_filter_error:
  "filter_small_segments lib ls w = Inl e \<Longrightarrow> geojson_linestring_to_poly lib ls w = Inl e"
  by (subst geojson_linestring_to_poly.simps) simp

lemma linestring_short:
  "filter_small_segments lib ls w = Inr fc \<Longrightarrow> length fc < 2 \<Longrightarrow>
     geojson_linestring_to_poly lib ls w =
       (case fc of [] \<Rightarrow> Inl IndexError | c # x \<Rightarrow> Inr (point_to_square lib c w))"
  by (subst geojson_linestring_to_poly.simps) simp

lemma linestring_single:
  "filter_small_segments lib ls w = Inr fc \<Longrightarrow> \<not> length fc < 2 \<Longrightarrow>
   \<not> 1 < length (explode_sharp_angles lib fc 45) \<Longrightarrow>
     geojson_linestring_to_poly lib ls w =
       offset_polygon lib (w / 2) (2 * length fc) (replicate (2 * length fc + 1) Null) fc"
  by (subst geojson_linestring_to_poly.simps) (simp add: Let_def)

lemma linestring_split:
  "filter_small_segments lib ls w = Inr fc \<Longrightarrow> \<not> length fc < 2 \<Longrightarrow>
   1 < length (explode_sharp_angles lib fc 45) \<Longrightarrow>
     geojson_linestring_to_poly lib ls w =
       (case collect (map (\<lambda>line. geojson_linestring_to_poly lib (linestring_of line) DEFAULT_WIDTH)
                        (explode_sharp_angles lib fc 45)) of
          Inl e \<Rightarrow> Inl e
        | Inr polys \<Rightarrow>
            (case collect (map geometry_coordinates polys) of
               Inl e \<Rightarrow> Inl e
             | Inr cs \<Rightarrow> Inr (multipolygon_feature cs)))"
  by (subst geojson_linestring_to_poly.simps) (simp add: Let_def)

lemma geojson_linestring_to_poly_error:
  "geojson_linestring_to_poly lib ls w = Inl e \<Longrightarrow>
     e \<in> {TypeError, IndexError, ZeroDivisionError, AttributeError}"
proof (induction lib ls w arbitrary: e rule: geojson_linestring_to_poly.induct)
  case (1 lib linestring width)
  show ?case
  proof (cases "filter_small_segments lib linestring width")
    case (Inl e')
    with "1.prems" show ?thesis
      by (auto simp: linestring_filter_error dest: filter_small_segments_error)
  next
    case (Inr fc)
    show ?thesis
    proof (cases "length fc < 2")
      case True
      with Inr "1.prems" show ?thesis
        by (auto simp: linestring_short split: list.splits)
    next
      case short: False
      show ?thesis
      proof (cases "1 < length (explode_sharp_angles lib fc 45)")
        case False
        with Inr short "1.prems" show ?thesis
          by (auto simp: linestring_single dest: offset_polygon_error)
      next
        case True
        let ?rs = "map (\<lambda>line. geojson_linestring_to_poly lib (linestring_of line) DEFAULT_WIDTH)
                     (explode_sharp_angles lib fc 45)"
        note eq = linestring_split [OF Inr short True]
        show ?thesis
        proof (cases "collect ?rs")
          case (Inl e')
          with eq "1.prems" have "e = e'" by simp
          moreover from Inl have "Inl e' \<in> set ?rs" by (rule collect_Inl)
          then obtain line where "line \<in> set (explode_sharp_angles lib fc 45)"
            and "geojson_linestring_to_poly lib (linestring_of line) DEFAULT_WIDTH = Inl e'"
            by auto
          ultimately show ?thesis
            using "1.IH" [OF Inr refl refl refl short refl True] by blast
        next
          case polys: (Inr polys)
          show ?thesis
          proof (cases "collect (map geometry_coordinates polys)")
            case (Inl e')
            with eq polys "1.prems" have "e = e'" by simp
            moreover from Inl have "Inl e' \<in> set (map geometry_coordinates polys)"
              by (rule collect_Inl)
            then obtain p where "geometry_coordinates p = Inl e'" by auto
            ultimately show ?thesis by (auto dest: geometry_coordinates_error)
          next
            case (Inr cs)
            with eq polys "1.prems" show ?thesis by simp
          qed
        qed
      qed
    qed
  qed
qed

lemma geojson_point_to_poly_error: "geojson_point_to_poly lib p w = Inl e \<Longrightarrow> e = TypeError"
  by (auto simp: geojson_point_to_poly_def split: sum.splits elim: position.elims)

lemma filter_loop_retained:
  "pre \<noteq> [] \<Longrightarrow> coords = pre @ xs \<Longrightarrow> prev = last_retained lib m coords (length pre - 1) \<Longrightarrow>
     filter_loop lib m prev [] xs
       = map ((!) coords) (filter (retained lib m coords) [length pre..<length coords])"
proof (induction xs arbitrary: pre prev)
  case Nil
  then show ?case by simp
next
  case (Cons cur rest)
  obtain k where k: "length pre = Suc k" using Cons.prems(1) by (cases pre) auto
  have cur: "coords ! Suc k = cur" using Cons.prems(2) k by (simp add: nth_append)
  have "Suc k < length coords" using Cons.prems(2) k by simp
  then have upt: "[Suc k..<length coords] = Suc k # [Suc (Suc k)..<length coords]"
    by (rule upt_conv_Cons)
  have split: "coords = (pre @ [cur]) @ rest" using Cons.prems(2) by simp
  have prev: "prev = last_retained lib m coords k" using Cons.prems(3) k by simp
  have len: "length (pre @ [cur]) = Suc (Suc k)" using k by simp
  have ne: "pre @ [cur] \<noteq> []" by simp
  show ?case
  proof (cases "distance_meters lib (prod.swap cur) (prod.swap prev) < m")
    case True
    then have nr: "\<not> retained lib m coords (Suc k)" and lr: "last_retained lib m coords (Suc k) = prev"
      using cur prev by (simp_all add: retained_def)
    have lr': "prev = last_retained lib m coords (length (pre @ [cur]) - 1)"
      by (simp only: len diff_Suc_1 lr)
    have "filter_loop lib m prev [] rest
        = map ((!) coords) (filter (retained lib m coords) [length (pre @ [cur])..<length coords])"
      by (rule Cons.IH [OF ne split lr'])
    then have "filter_loop lib m prev [] rest
        = map ((!) coords) (filter (retained lib m coords) [Suc (Suc k)..<length coords])"
      by (simp only: len)
    moreover have "filter_loop lib m prev [] (cur # rest) = filter_loop lib m prev [] rest"
      using True by (simp add: Let_def)
    ultimately show ?thesis
      by (simp only: k upt filter.simps nr if_False)
  next
    case False
    then have r: "retained lib m coords (Suc k)" and lr: "last_retained lib m coords (Suc k) = cur"
      using cur prev by (simp_all add: retained_def)
    have lr': "cur = last_retained lib m coords (length (pre @ [cur]) - 1)"
      by (simp only: len diff_Suc_1 lr)
    have "filter_loop lib m cur [] rest
        = map ((!) coords) (filter (retained lib m coords) [length (pre @ [cur])..<length coords])"
      by (rule Cons.IH [OF ne split lr'])
    then have "filter_loop lib m cur [] rest
        = map ((!) coords) (filter (retained lib m coords) [Suc (Suc k)..<length coords])"
      by (simp only: len)
    moreover have "filter_loop lib m prev [] (cur # rest) = cur # filter_loop lib m cur [] rest"
      using False filter_loop_acc [of lib m cur "[cur]" rest] by (simp add: Let_def)
    ultimately show ?thesis
      by (simp only: k upt filter.simps r if_True list.map cur)
  qed
qed

lemma filter_coords_retained:
  "filter_coords lib coords m
     = map ((!) coords) (filter (retained lib m coords) [0..<length coords])"
proof (cases "length coords < 2")
  case True
  then have "coords = [] \<or> (\<exists>c. coords = [c])"
    by (cases coords) (auto simp: length_Suc_conv)
  then show ?thesis by (auto simp: filter_coords_def retained_def)
next
  case False
  then obtain c cs where coords: "coords = c # cs" by (cases coords) auto
  have "filter_loop lib m c [] cs
      = map ((!) coords) (filter (retained lib m coords) [length [c]..<length coords])"
    by (rule filter_loop_retained) (simp_all add: coords)
  then have tail: "filter_loop lib m c [] cs
      = map ((!) coords) (filter (retained lib m coords) [Suc 0..<length coords])"
    by simp
  have "0 < length coords" using coords by simp
  then have upt: "[0..<length coords] = 0 # [Suc 0..<length coords]"
    by (rule upt_conv_Cons)
  have r0: "retained lib m coords 0" by (simp add: retained_def)
  have c0: "coords ! 0 = c" by (simp add: coords)
  have "filter_coords lib coords m = c # filter_loop lib m c [] cs"
    using False filter_loop_acc [of lib m c "[c]" cs] by (simp add: filter_coords_def coords)
  also have "\<dots> = map ((!) coords) (filter (retained lib m coords) [0..<length coords])"
    by (simp only: tail upt filter.simps r0 if_True list.map c0)
  finally show ?thesis .
qed

lemma filter_coords_subseq: "subseq (filter_coords lib coords m) coords"
proof -
  have "subseq (map ((!) coords) (filter (retained lib m coords) [0..<length coords]))
               (map ((!) coords) [0..<length coords])"
    by (intro subseq_map subseq_filter_left)
  then show ?thesis by (simp add: filter_coords_retained map_nth)
qed

lemma filter_coords_hd:
  assumes "coords \<noteq> []"
  shows "filter_coords lib coords m \<noteq> [] \<and> hd (filter_coords lib coords m) = hd coords"
proof -
  from assms have "0 < length coords" by simp
  then have upt: "[0..<length coords] = 0 # [Suc 0..<length coords]"
    by (rule upt_conv_Cons)
  have r0: "retained lib m coords 0" by (simp add: retained_def)
  have "filter_coords lib coords m
      = coords ! 0 # map ((!) coords) (filter (retained lib m coords) [Suc 0..<length coords])"
    by (simp only: filter_coords_retained upt filter.simps r0 if_True list.map)
  then show ?thesis using assms by (simp add: hd_conv_nth)
qed

lemma flat_distance_same_snd: "distance_meters flat_lib (a, c) (b, c) = \<bar>a - b\<bar>"
  by (simp add: flat_lib_def)

lemma flat_distance_same_fst: "distance_meters flat_lib (c, a) (c, b) = \<bar>a - b\<bar>"
  by (simp add: flat_lib_def)

lemma explode_loop_lines:
  "explode_loop lib th lines cur xs = lines @ explode_loop lib th [] cur xs"
proof (induction xs arbitrary: lines cur)
  case Nil
  show ?case by simp
next
  case (Cons a xs)
  show ?case
  proof (cases xs)
    case Nil
    then show ?thesis by simp
  next
    case xs: (Cons b ys)
    show ?thesis
    proof (cases ys)
      case Nil
      with xs show ?thesis by simp
    next
      case (Cons c rest)
      show ?thesis
        using Cons.IH [of lines "cur @ [c]"] Cons.IH [of "lines @ [cur, [b]]" "[b, c]"]
          Cons.IH [of "[cur, [b]]" "[b, c]"]
        by (simp add: xs Cons Let_def)
    qed
  qed
qed

lemma explode_loop_first:
  "\<exists>more others. explode_loop lib th [] cur xs = (cur @ more) # others"
proof (induction xs arbitrary: cur)
  case Nil
  show ?case by simp
next
  case (Cons a xs)
  show ?case
  proof (cases xs)
    case Nil
    then show ?thesis by simp
  next
    case xs: (Cons b ys)
    show ?thesis
    proof (cases ys)
      case Nil
      with xs show ?thesis by simp
    next
      case (Cons c rest)
      show ?thesis
      proof (cases "angle_between_segments lib a b c \<le> th")
        case True
        from Cons.IH [of "cur @ [c]"] obtain more others
          where "explode_loop lib th [] (cur @ [c]) xs = ((cur @ [c]) @ more) # others" by blast
        with True show ?thesis by (simp add: xs Cons)
      next
        case False
        then have "explode_loop lib th [] cur (a # xs)
            = [cur, [b]] @ explode_loop lib th [] [b, c] (b # c # rest)"
          using explode_loop_lines [of lib th "[cur, [b]]" "[b, c]" "b # c # rest"]
          by (simp add: xs Cons)
        then show ?thesis by simp
      qed
    qed
  qed
qed

lemma explode_loop_sharp:
  "j + 2 < length xs \<Longrightarrow>
   th < angle_between_segments lib (xs ! j) (xs ! (j + 1)) (xs ! (j + 2)) \<Longrightarrow>
   2 \<le> length cur \<Longrightarrow> last cur = xs ! 1 \<Longrightarrow>
   \<exists>pre line rest post.
      explode_loop lib th lines cur xs
        = pre @ [line @ [xs ! (j + 1)], [xs ! (j + 1)], xs ! (j + 1) # xs ! (j + 2) # rest] @ post
      \<and> line \<noteq> []"
proof (induction xs arbitrary: lines cur j)
  case Nil
  then show ?case by simp
next
  case (Cons a xs)
  then obtain b c rest where xs: "xs = b # c # rest"
    by (cases xs; cases "tl xs") auto
  show ?case
  proof (cases j)
    case 0
    with Cons.prems xs have sharp: "\<not> angle_between_segments lib a b c \<le> th" by simp
    from Cons.prems have ne: "cur \<noteq> []" by auto
    with Cons.prems xs have cur: "cur = butlast cur @ [b]"
      using append_butlast_last_id [of cur] by simp
    from Cons.prems have bl: "butlast cur \<noteq> []"
      by (cases cur; cases "tl cur") auto
    obtain more others where
      "explode_loop lib th [] [b, c] (b # c # rest) = ([b, c] @ more) # others"
      using explode_loop_first by blast
    with sharp have "explode_loop lib th lines cur (a # xs)
        = lines @ [cur, [b], b # c # more] @ others"
      using explode_loop_lines [of lib th "lines @ [cur, [b]]" "[b, c]" "b # c # rest"]
      by (simp add: xs)
    with cur have "explode_loop lib th lines cur (a # xs)
        = lines @ [butlast cur @ [b], [b], b # c # more] @ others" by simp
    with bl show ?thesis using 0 xs by auto
  next
    case (Suc j')
    from Cons.prems Suc have len: "j' + 2 < length xs"
      and ang: "th < angle_between_segments lib (xs ! j') (xs ! (j' + 1)) (xs ! (j' + 2))"
      by simp_all
    show ?thesis
    proof (cases "angle_between_segments lib a b c \<le> th")
      case True
      have "\<exists>pre line rest post. explode_loop lib th lines (cur @ [c]) xs
          = pre @ [line @ [xs ! (j' + 1)], [xs ! (j' + 1)], xs ! (j' + 1) # xs ! (j' + 2) # rest] @ post
          \<and> line \<noteq> []"
        using Cons.prems(3) by (intro Cons.IH [OF len ang]) (simp_all add: xs)
      with True Suc show ?thesis by (simp add: xs)
    next
      case False
      have "\<exists>pre line rest post. explode_loop lib th (lines @ [cur, [b]]) [b, c] xs
          = pre @ [line @ [xs ! (j' + 1)], [xs ! (j' + 1)], xs ! (j' + 1) # xs ! (j' + 2) # rest] @ post
          \<and> line \<noteq> []"
        by (rule Cons.IH [OF len ang]) (simp_all add: xs)
      with False Suc show ?thesis by (simp add: xs)
    qed
  qed
qed

lemma flat_angle_north_east:
  "angle_between_segments flat_lib (0, 50) (0, 100) (100, 100) = 90"
  by (simp add: angle_between_segments_def flat_simps compass_def abs_angular_delta_def)

lemma flat_angle_north_north:
  "angle_between_segments flat_lib (0, 0) (0, 50) (0, 100) = 0"
  by (simp add: angle_between_segments_def flat_simps compass_def abs_angular_delta_def)

lemma segment_normal_Inr:
  assumes "segment_normal lib hw c0 c1 = Inr (p0, p1, nrm)"
  shows "Position (mercator_to_wgs lib (fst p1 + fst nrm) (snd p1 + snd nrm))
           = displaced lib c1 hw (unit_normal lib c0 c1)"
    and "Position (mercator_to_wgs lib (fst p1 - fst nrm) (snd p1 - snd nrm))
           = displaced lib c1 (- hw) (unit_normal lib c0 c1)"
    and "Position (mercator_to_wgs lib (fst p0 + fst nrm) (snd p0 + snd nrm))
           = displaced lib c0 hw (unit_normal lib c0 c1)"
    and "Position (mercator_to_wgs lib (fst p0 - fst nrm) (snd p0 - snd nrm))
           = displaced lib c0 (- hw) (unit_normal lib c0 c1)"
  using assms
  by (auto simp: segment_normal_def displaced_def unit_normal_def Let_def split_beta
                 mult.commute
           split: if_splits)

lemma set_item_Inr: "set_item xs i v = Inr ys \<Longrightarrow> i < length xs \<and> ys = xs[i := v]"
  by (auto simp: set_item_def split: if_splits)

lemma drop_Cons2:
  assumes "c0 # c1 # rest = drop m fc"
  shows "fc ! m = c0" and "fc ! Suc m = c1" and "c1 # rest = drop (Suc m) fc" and "Suc m < length fc"
proof -
  from assms have d: "drop m fc = c0 # c1 # rest" by simp
  then show "fc ! m = c0" by (rule nth_via_drop)
  from d have "drop (Suc m) fc = c1 # rest"
    by (metis drop_Suc list.sel(3) tl_drop)
  then show "c1 # rest = drop (Suc m) fc" and "fc ! Suc m = c1"
    by (simp_all add: nth_via_drop)
  from \<open>drop (Suc m) fc = c1 # rest\<close> show "Suc m < length fc"
    by (metis drop_all list.distinct(1) not_le)
qed

lemma offset_loop_single:
  assumes "offset_loop lib hw n i [v] nc = Inr nc'"
    and "[v] = drop (i - 1) fc" and "1 \<le> i" and "i \<le> length fc"
    and "n = 2 * length fc" and "length nc = n + 1"
  shows "length nc' = n + 1
     \<and> (\<forall>k. i \<le> k \<and> k < length fc \<longrightarrow>
           nc' ! k = displaced lib (fc ! k) hw (unit_normal lib (fc ! (k - 1)) (fc ! k))
         \<and> nc' ! (n - k - 1) = displaced lib (fc ! k) (- hw) (unit_normal lib (fc ! (k - 1)) (fc ! k)))
     \<and> (\<forall>j. j < i \<or> (n - i \<le> j \<and> j \<le> n) \<longrightarrow> nc' ! j = nc ! j)"
proof -
  from assms(2) have "length [v] = length (drop (i - 1) fc)" by simp
  with assms(3) have "length fc = i" by simp
  moreover from assms(1) have "nc' = nc" by simp
  ultimately show ?thesis using assms(6) by auto
qed

lemma offset_loop_result:
  "offset_loop lib hw n i cs nc = Inr nc' \<Longrightarrow>
   cs = drop (i - 1) fc \<Longrightarrow> 1 \<le> i \<Longrightarrow> i \<le> length fc \<Longrightarrow> n = 2 * length fc \<Longrightarrow>
   length nc = n + 1 \<Longrightarrow>
     length nc' = n + 1
     \<and> (\<forall>k. i \<le> k \<and> k < length fc \<longrightarrow>
           nc' ! k = displaced lib (fc ! k) hw (unit_normal lib (fc ! (k - 1)) (fc ! k))
         \<and> nc' ! (n - k - 1) = displaced lib (fc ! k) (- hw) (unit_normal lib (fc ! (k - 1)) (fc ! k)))
     \<and> (\<forall>j. j < i \<or> (n - i \<le> j \<and> j \<le> n) \<longrightarrow> nc' ! j = nc ! j)"
proof (induction lib hw n i cs nc arbitrary: nc' rule: offset_loop.induct)
  case (1 lib half_width n i c0 c1 rest new_coords)
  obtain m where i: "i = Suc m" using "1.prems"(3) by (cases i) auto
  from "1.prems"(2) i have d: "c0 # c1 # rest = drop m fc" by simp
  note dr = drop_Cons2 [OF d]
  from "1.prems"(1) obtain p0 p1 nrm where sn: "segment_normal lib half_width c0 c1 = Inr (p0, p1, nrm)"
    by (auto split: sum.splits)
  let ?F = "Position (mercator_to_wgs lib (fst p1 + fst nrm) (snd p1 + snd nrm))"
  let ?B = "Position (mercator_to_wgs lib (fst p1 - fst nrm) (snd p1 - snd nrm))"
  from "1.prems"(1) sn obtain nc1 where s1: "set_item new_coords i ?F = Inr nc1"
    by (auto split: sum.splits)
  from "1.prems"(1) sn s1 obtain nc2 where s2: "set_item nc1 (n - i - 1) ?B = Inr nc2"
    by (auto split: sum.splits)
  from "1.prems"(1) sn s1 s2 have loop: "offset_loop lib half_width n (i + 1) (c1 # rest) nc2 = Inr nc'"
    by simp
  from set_item_Inr [OF s1] have nc1: "nc1 = new_coords[i := ?F]" and il: "i < length new_coords"
    by simp_all
  from set_item_Inr [OF s2] have nc2: "nc2 = nc1[n - i - 1 := ?B]" by simp
  have len2: "length nc2 = n + 1" using nc1 nc2 "1.prems"(6) by simp
  have ilt: "i < length fc" using dr(4) i by simp
  have ih: "length nc' = n + 1
     \<and> (\<forall>k. i + 1 \<le> k \<and> k < length fc \<longrightarrow>
           nc' ! k = displaced lib (fc ! k) half_width (unit_normal lib (fc ! (k - 1)) (fc ! k))
         \<and> nc' ! (n - k - 1) = displaced lib (fc ! k) (- half_width) (unit_normal lib (fc ! (k - 1)) (fc ! k)))
     \<and> (\<forall>j. j < i + 1 \<or> (n - (i + 1) \<le> j \<and> j \<le> n) \<longrightarrow> nc' ! j = nc2 ! j)"
  proof (rule "1.IH" [OF sn refl refl s1 s2 loop])
    show "c1 # rest = drop (i + 1 - 1) fc" using dr(3) i by simp
    show "1 \<le> i + 1" by simp
    show "i + 1 \<le> length fc" using ilt by simp
    show "n = 2 * length fc" by (rule "1.prems"(5))
    show "length nc2 = n + 1" by (rule len2)
  qed
  have F: "?F = displaced lib (fc ! i) half_width (unit_normal lib (fc ! (i - 1)) (fc ! i))"
    using segment_normal_Inr(1) [OF sn] dr(1,2) i by simp
  have B: "?B = displaced lib (fc ! i) (- half_width) (unit_normal lib (fc ! (i - 1)) (fc ! i))"
    using segment_normal_Inr(2) [OF sn] dr(1,2) i by simp
  have n: "n = 2 * length fc" by (rule "1.prems"(5))
  have at_i: "nc2 ! i = ?F" and at_b: "nc2 ! (n - i - 1) = ?B"
    using nc1 nc2 il ilt n "1.prems"(6) by simp_all
  have keep: "nc2 ! j = new_coords ! j" if "j < i \<or> (n - i \<le> j \<and> j \<le> n)" for j
    using that nc1 nc2 ilt n by auto
  show ?case
  proof (intro conjI allI impI)
    show "length nc' = n + 1" using ih by simp
  next
    fix k assume k: "i \<le> k \<and> k < length fc"
    show "nc' ! k = displaced lib (fc ! k) half_width (unit_normal lib (fc ! (k - 1)) (fc ! k))"
    proof (cases "k = i")
      case True
      with ih at_i F show ?thesis by simp
    next
      case False
      with k ih show ?thesis by simp
    qed
    show "nc' ! (n - k - 1) = displaced lib (fc ! k) (- half_width) (unit_normal lib (fc ! (k - 1)) (fc ! k))"
    proof (cases "k = i")
      case True
      have "nc' ! (n - i - 1) = nc2 ! (n - i - 1)" using ih ilt n by simp
      with True at_b B show ?thesis by simp
    next
      case False
      with k ih show ?thesis by simp
    qed
  next
    fix j assume j: "j < i \<or> (n - i \<le> j \<and> j \<le> n)"
    then have "nc' ! j = nc2 ! j" using ih by auto
    with keep [OF j] show "nc' ! j = new_coords ! j" by simp
  qed
next
  case "2_1"
  then show ?case by simp
next
  case "2_2"
  then show ?case by (rule offset_loop_single)
qed

lemma offset_polygon_result:
  assumes res: "offset_polygon lib hw n nc fc = Inr res"
    and n: "n = 2 * length fc" and lnc: "length nc = n + 1"
    and len: "2 \<le> length fc"
  shows "\<exists>ring. res = polygon_feature ring \<and> length ring = n + 1
     \<and> ring ! 0 = displaced lib (fc ! 0) hw (unit_normal lib (fc ! 0) (fc ! 1))
     \<and> ring ! (n - 1) = displaced lib (fc ! 0) (- hw) (unit_normal lib (fc ! 0) (fc ! 1))
     \<and> ring ! n = ring ! 0
     \<and> (\<forall>k. 1 \<le> k \<and> k < length fc \<longrightarrow>
           ring ! k = displaced lib (fc ! k) hw (unit_normal lib (fc ! (k - 1)) (fc ! k))
         \<and> ring ! (n - k - 1)
             = displaced lib (fc ! k) (- hw) (unit_normal lib (fc ! (k - 1)) (fc ! k)))"
proof -
  from res obtain p0 p1 nrm where sn: "segment_normal lib hw (fc ! 0) (fc ! 1) = Inr (p0, p1, nrm)"
    by (auto simp: offset_polygon_def split: sum.splits)
  let ?F = "Position (mercator_to_wgs lib (fst p0 + fst nrm) (snd p0 + snd nrm))"
  let ?B = "Position (mercator_to_wgs lib (fst p0 - fst nrm) (snd p0 - snd nrm))"
  from res sn obtain nc1 where s1: "set_item nc 0 ?F = Inr nc1"
    by (auto simp: offset_polygon_def split: sum.splits)
  from res sn s1 obtain nc2 where s2: "set_item nc1 (n - 1) ?B = Inr nc2"
    by (auto simp: offset_polygon_def split: sum.splits)
  from res sn s1 s2 obtain nc3 where s3: "set_item nc2 n (nc2 ! 0) = Inr nc3"
    by (auto simp: offset_polygon_def split: sum.splits)
  from res sn s1 s2 s3 obtain ring where loop: "offset_loop lib hw n 1 fc nc3 = Inr ring"
    and r: "res = polygon_feature ring"
    by (auto simp: offset_polygon_def split: sum.splits)
  from set_item_Inr [OF s1] have nc1: "nc1 = nc[0 := ?F]" by simp
  from set_item_Inr [OF s2] have nc2: "nc2 = nc1[n - 1 := ?B]" by simp
  from set_item_Inr [OF s3] have nc3: "nc3 = nc2[n := nc2 ! 0]" by simp
  have n4: "4 \<le> n" using n len by simp
  have l3: "length nc3 = n + 1" using nc1 nc2 nc3 lnc by simp
  have b0: "nc2 ! 0 = ?F" using nc1 nc2 lnc n4 by simp
  have a0: "nc3 ! 0 = ?F" using nc3 b0 lnc n4 by simp
  have a1: "nc3 ! (n - 1) = ?B" using nc1 nc2 nc3 lnc n4 by simp
  have a2: "nc3 ! n = ?F" using nc1 nc2 nc3 lnc b0 by simp
  have inv: "length ring = n + 1
     \<and> (\<forall>k. 1 \<le> k \<and> k < length fc \<longrightarrow>
           ring ! k = displaced lib (fc ! k) hw (unit_normal lib (fc ! (k - 1)) (fc ! k))
         \<and> ring ! (n - k - 1) = displaced lib (fc ! k) (- hw) (unit_normal lib (fc ! (k - 1)) (fc ! k)))
     \<and> (\<forall>j. j < 1 \<or> (n - 1 \<le> j \<and> j \<le> n) \<longrightarrow> ring ! j = nc3 ! j)"
  proof (rule offset_loop_result [OF loop])
    show "fc = drop (1 - 1) fc" by simp
    show "1 \<le> (1::nat)" by simp
    show "1 \<le> length fc" using len by simp
    show "n = 2 * length fc" by (rule n)
    show "length nc3 = n + 1" by (rule l3)
  qed
  from inv have k0: "ring ! 0 = nc3 ! 0" and k1: "ring ! (n - 1) = nc3 ! (n - 1)"
    and k2: "ring ! n = nc3 ! n"
    by simp_all
  have "ring ! 0 = displaced lib (fc ! 0) hw (unit_normal lib (fc ! 0) (fc ! 1))"
    using k0 a0 segment_normal_Inr(3) [OF sn] by simp
  moreover have "ring ! (n - 1) = displaced lib (fc ! 0) (- hw) (unit_normal lib (fc ! 0) (fc ! 1))"
    using k1 a1 segment_normal_Inr(4) [OF sn] by simp
  moreover have "ring ! n = ring ! 0" using k0 k2 a0 a2 by simp
  ultimately show ?thesis using r inv by blast
qed

lemma is_position_displaced: "is_position (displaced lib c d u)"
  by (simp add: displaced_def Let_def)

lemma offset_polygon_closed:
  assumes res: "offset_polygon lib hw n nc fc = Inr res"
    and n: "n = 2 * length fc" and lnc: "length nc = n + 1"
    and len: "2 \<le> length fc"
  shows "\<exists>ring. res = polygon_feature ring \<and> closed_ring ring"
proof -
  from offset_polygon_result [OF res n lnc len] obtain ring where
    r: "res = polygon_feature ring" and l: "length ring = n + 1"
    and f0: "ring ! 0 = displaced lib (fc ! 0) hw (unit_normal lib (fc ! 0) (fc ! 1))"
    and b0: "ring ! (n - 1) = displaced lib (fc ! 0) (- hw) (unit_normal lib (fc ! 0) (fc ! 1))"
    and cl: "ring ! n = ring ! 0"
    and mid: "\<And>k. 1 \<le> k \<and> k < length fc \<Longrightarrow>
           ring ! k = displaced lib (fc ! k) hw (unit_normal lib (fc ! (k - 1)) (fc ! k))
         \<and> ring ! (n - k - 1)
             = displaced lib (fc ! k) (- hw) (unit_normal lib (fc ! (k - 1)) (fc ! k))"
    by blast
  have pos: "is_position (ring ! j)" if j: "j < n + 1" for j
  proof -
    consider "j = 0" | "j = n" | "j = n - 1" | "1 \<le> j \<and> j < length fc"
      | "length fc \<le> j \<and> j + 2 \<le> n"
      using j by linarith
    then show ?thesis
    proof cases
      case 1
      with f0 show ?thesis by (simp add: is_position_displaced)
    next
      case 2
      with cl f0 show ?thesis by (simp add: is_position_displaced)
    next
      case 3
      with b0 show ?thesis by (simp add: is_position_displaced)
    next
      case 4
      with mid [of j] show ?thesis by (simp add: is_position_displaced)
    next
      case 5
      then have k: "1 \<le> n - j - 1 \<and> n - j - 1 < length fc" and "n - (n - j - 1) - 1 = j"
        using n by auto
      with mid [OF k] show ?thesis by (simp add: is_position_displaced)
    qed
  qed
  have ne: "ring \<noteq> []" using l by auto
  have "hd ring = ring ! 0" using ne by (simp add: hd_conv_nth)
  moreover have "last ring = ring ! n" using ne l by (simp add: last_conv_nth)
  moreover have "list_all is_position ring"
    using pos l by (simp add: list_all_length)
  moreover have "4 \<le> length ring" using l n len by simp
  ultimately have "closed_ring ring" using cl by (simp add: closed_ring_def)
  with r show ?thesis by blast
qed

lemma rings_polygon_feature:
  "list_all is_position ring \<Longrightarrow> rings (get_coords (polygon_feature ring)) = [ring]"
proof -
  assume "list_all is_position ring"
  then have "\<not> list_ex is_array ring"
    by (induction ring) (auto elim: is_position.elims)
  then show ?thesis by (simp add: polygon_feature_def)
qed

lemma closed_ring_polygon_feature:
  "closed_ring ring \<Longrightarrow> is_array (get_coords (polygon_feature ring))
     \<and> rings (get_coords (polygon_feature ring)) \<noteq> []
     \<and> (\<forall>r\<in>set (rings (get_coords (polygon_feature ring))). closed_ring r)"
  using rings_polygon_feature [of ring]
  by (simp add: closed_ring_def) (simp add: polygon_feature_def)

lemma point_to_square_closed:
  "\<exists>ring. point_to_square lib c w = polygon_feature ring \<and> closed_ring ring \<and> length ring = 5"
proof -
  obtain cx cy where m: "wgs_to_mercator lib (fst c) (snd c) = (cx, cy)"
    by (cases "wgs_to_mercator lib (fst c) (snd c)") auto
  let ?r = "[Position (mercator_to_wgs lib (cx - w / 2) (cy - w / 2)),
             Position (mercator_to_wgs lib (cx + w / 2) (cy - w / 2)),
             Position (mercator_to_wgs lib (cx + w / 2) (cy + w / 2)),
             Position (mercator_to_wgs lib (cx - w / 2) (cy + w / 2)),
             Position (mercator_to_wgs lib (cx - w / 2) (cy - w / 2))]"
  have "point_to_square lib c w = polygon_feature ?r"
    by (simp add: point_to_square_def m Let_def)
  moreover have "closed_ring ?r \<and> length ?r = 5" by (simp add: closed_ring_def)
  ultimately show ?thesis by blast
qed

lemma collect_map_Inr:
  "collect (map f xs) = Inr ys \<Longrightarrow> length ys = length xs \<and> (\<forall>i < length xs. f (xs ! i) = Inr (ys ! i))"
proof (induction xs arbitrary: ys)
  case Nil
  then show ?case by simp
next
  case (Cons x xs)
  from Cons.prems obtain y ys' where y: "f x = Inr y" and ys': "collect (map f xs) = Inr ys'"
    and ys: "ys = y # ys'"
    by (auto split: sum.splits)
  from Cons.IH [OF ys'] y ys show ?case
    by (auto simp: nth_Cons split: nat.splits)
qed

lemma rings_multipolygon:
  assumes "cs \<noteq> []" and "\<forall>c\<in>set cs. is_array c"
  shows "rings (get_coords (multipolygon_feature cs)) = concat (map rings cs)"
proof -
  from assms have "list_ex is_array cs" by (cases cs) (auto simp: list_ex_iff)
  then show ?thesis by (simp add: multipolygon_feature_def)
qed

lemma linestring_rings_closed:
  "geojson_linestring_to_poly lib ls w = Inr res \<Longrightarrow>
     is_array (get_coords res) \<and> rings (get_coords res) \<noteq> []
     \<and> (\<forall>r\<in>set (rings (get_coords res)). closed_ring r)"
proof (induction lib ls w arbitrary: res rule: geojson_linestring_to_poly.induct)
  case (1 lib linestring width)
  from "1.prems" obtain fc where fc: "filter_small_segments lib linestring width = Inr fc"
    by (cases "filter_small_segments lib linestring width") (simp_all add: linestring_filter_error)
  show ?case
  proof (cases "length fc < 2")
    case True
    with fc "1.prems" obtain c where "res = point_to_square lib c width"
      by (auto simp: linestring_short split: list.splits)
    with point_to_square_closed [of lib c width] show ?thesis
      using closed_ring_polygon_feature by auto
  next
    case short: False
    show ?thesis
    proof (cases "1 < length (explode_sharp_angles lib fc 45)")
      case False
      with fc short "1.prems"
      have "offset_polygon lib (width / 2) (2 * length fc) (replicate (2 * length fc + 1) Null) fc = Inr res"
        by (simp add: linestring_single)
      from offset_polygon_closed [OF this] short obtain ring
        where "res = polygon_feature ring" and "closed_ring ring" by auto
      then show ?thesis using closed_ring_polygon_feature by auto
    next
      case True
      let ?lines = "explode_sharp_angles lib fc 45"
      let ?f = "\<lambda>line. geojson_linestring_to_poly lib (linestring_of line) DEFAULT_WIDTH"
      note eq = linestring_split [OF fc short True]
      from eq "1.prems" obtain polys where polys: "collect (map ?f ?lines) = Inr polys"
        by (auto split: sum.splits)
      from eq "1.prems" polys obtain cs where cs: "collect (map geometry_coordinates polys) = Inr cs"
        and res: "res = multipolygon_feature cs"
        by (auto split: sum.splits)
      from collect_map_Inr [OF polys]
      have lp: "length polys = length ?lines" and fp: "\<And>i. i < length ?lines \<Longrightarrow> ?f (?lines ! i) = Inr (polys ! i)"
        by simp_all
      from collect_map_Inr [OF cs]
      have lc: "length cs = length polys"
        and gc: "\<And>i. i < length polys \<Longrightarrow> geometry_coordinates (polys ! i) = Inr (cs ! i)"
        by simp_all
      have each: "is_array c \<and> rings c \<noteq> [] \<and> (\<forall>r\<in>set (rings c). closed_ring r)"
        if c: "c \<in> set cs" for c
      proof -
        from c obtain i where i: "i < length cs" and ci: "c = cs ! i"
          by (auto simp: in_set_conv_nth)
        from i lc lp have il: "i < length ?lines" by simp
        then have mem: "?lines ! i \<in> set ?lines" by simp
        have ih: "is_array (get_coords (polys ! i)) \<and> rings (get_coords (polys ! i)) \<noteq> []
            \<and> (\<forall>r\<in>set (rings (get_coords (polys ! i))). closed_ring r)"
          by (rule "1.IH" [OF fc refl refl refl short refl True mem fp [OF il]])
        from gc [of i] i lc have "geometry_coordinates (polys ! i) = Inr c" by (simp add: ci)
        then have "get_coords (polys ! i) = c" by (cases "polys ! i") auto
        with ih show ?thesis by simp
      qed
      from True lp lc have ne: "cs \<noteq> []" by auto
      from each have arr: "\<forall>c\<in>set cs. is_array c" by blast
      have rs: "rings (get_coords res) = concat (map rings cs)"
        unfolding res by (rule rings_multipolygon [OF ne arr])
      from ne obtain c0 where "c0 \<in> set cs" by (cases cs) auto
      with each [of c0] have "concat (map rings cs) \<noteq> []" by auto
      moreover have "\<forall>r\<in>set (concat (map rings cs)). closed_ring r" using each by auto
      moreover have "is_array (get_coords res)" by (simp add: res multipolygon_feature_def)
      ultimately show ?thesis using rs by simp
    qed
  qed
qed

lemma flat_segment_normal_north:
  "y0 < y1 \<Longrightarrow> segment_normal flat_lib hw (x, y0) (x, y1) = Inr ((x, y0), (x, y1), (- hw, 0))"
  by (simp add: segment_normal_def flat_simps Let_def)

lemma flat_segment_normal_east:
  "x0 < x1 \<Longrightarrow> segment_normal flat_lib hw (x0, y) (x1, y) = Inr ((x0, y), (x1, y), (0, hw))"
  by (simp add: segment_normal_def flat_simps Let_def)

lemma sqrt_10000: "sqrt 10000 = 100"
  by (rule real_sqrt_unique) simp_all

lemma flat_segment_normal_345:
  "segment_normal flat_lib hw (0, 100) (60, 180) = Inr ((0, 100), (60, 180), (- (4 / 5) * hw, 3 / 5 * hw))"
  by (simp add: segment_normal_def flat_simps Let_def sqrt_10000)

lemma flat_distance_345: "distance_meters flat_lib (180, 60) (100, 0) = 100"
  by (simp add: flat_simps sqrt_10000)

lemma flat_angle_north_northeast:
  "angle_between_segments flat_lib (0, 0) (0, 100) (60, 180) = 45"
  by (simp add: angle_between_segments_def flat_simps compass_def abs_angular_delta_def)

lemma flat_angle_corner:
  "angle_between_segments flat_lib (0, 0) (0, 100) (100, 100) = 90"
  by (simp add: angle_between_segments_def flat_simps compass_def abs_angular_delta_def)

lemma gentle_line_filter:
  "filter_small_segments flat_lib (linestring_of [(0, 0), (0, 100), (60, 180)]) 10
     = Inr [(0, 0), (0, 100), (60, 180)]"
  by (simp add: filter_small_segments_def positions_linestring_of filter_coords_def
      flat_distance_same_snd flat_distance_345)

lemma gentle_line_explode:
  "explode_sharp_angles flat_lib [(0, 0), (0, 100), (60, 180)] 45 = [[(0, 0), (0, 100), (60, 180)]]"
  by (simp add: explode_sharp_angles_def flat_angle_north_northeast)

lemma gentle_line:
  "geojson_linestring_to_poly flat_lib (linestring_of [(0, 0), (0, 100), (60, 180)]) 10
     = Inr (polygon_feature [Position (- 5, 0), Position (- 5, 100), Position (56, 183),
              Position (64, 177), Position (5, 100), Position (5, 0), Position (- 5, 0)])"
proof -
  let ?fc = "[(0, 0), (0, 100), (60, 180)] :: coord list"
  have "geojson_linestring_to_poly flat_lib (linestring_of ?fc) 10
      = offset_polygon flat_lib (10 / 2) (2 * length ?fc) (replicate (2 * length ?fc + 1) Null) ?fc"
    by (rule linestring_single [OF gentle_line_filter]) (simp_all add: gentle_line_explode)
  also have "\<dots> = Inr (polygon_feature [Position (- 5, 0), Position (- 5, 100), Position (56, 183),
              Position (64, 177), Position (5, 100), Position (5, 0), Position (- 5, 0)])"
    by (simp add: offset_polygon_def flat_segment_normal_north flat_segment_normal_345
        set_item_def flat_simps eval_nat_numeral)
  finally show ?thesis .
qed

lemma piece_north:
  "geojson_linestring_to_poly flat_lib (linestring_of [(0, 0), (0, 100)]) DEFAULT_WIDTH
     = Inr (polygon_feature [Position (- 25 / 2, 0), Position (- 25 / 2, 100), Position (25 / 2, 100),
              Position (25 / 2, 0), Position (- 25 / 2, 0)])"
proof -
  let ?fc = "[(0, 0), (0, 100)] :: coord list"
  have f: "filter_small_segments flat_lib (linestring_of ?fc) DEFAULT_WIDTH = Inr ?fc"
    by (simp add: filter_small_segments_def positions_linestring_of filter_coords_def
        flat_distance_same_snd DEFAULT_WIDTH_def)
  have "geojson_linestring_to_poly flat_lib (linestring_of ?fc) DEFAULT_WIDTH
      = offset_polygon flat_lib (DEFAULT_WIDTH / 2) (2 * length ?fc)
          (replicate (2 * length ?fc + 1) Null) ?fc"
    by (rule linestring_single [OF f]) (simp_all add: explode_sharp_angles_def)
  also have "\<dots> = Inr (polygon_feature [Position (- 25 / 2, 0), Position (- 25 / 2, 100),
              Position (25 / 2, 100), Position (25 / 2, 0), Position (- 25 / 2, 0)])"
    by (simp add: offset_polygon_def flat_segment_normal_north set_item_def flat_simps
        eval_nat_numeral DEFAULT_WIDTH_def)
  finally show ?thesis .
qed

lemma piece_corner:
  "geojson_linestring_to_poly flat_lib (linestring_of [(0, 100)]) DEFAULT_WIDTH
     = Inr (point_to_square flat_lib (0, 100) DEFAULT_WIDTH)"
proof -
  have f: "filter_small_segments flat_lib (linestring_of [(0, 100)]) DEFAULT_WIDTH = Inr [(0, 100)]"
    by (simp add: filter_small_segments_def positions_linestring_of filter_coords_def)
  show ?thesis using linestring_short [OF f] by simp
qed

lemma piece_east:
  "geojson_linestring_to_poly flat_lib (linestring_of [(0, 100), (100, 100)]) DEFAULT_WIDTH
     = Inr (polygon_feature [Position (0, 225 / 2), Position (100, 225 / 2), Position (100, 175 / 2),
              Position (0, 175 / 2), Position (0, 225 / 2)])"
proof -
  let ?fc = "[(0, 100), (100, 100)] :: coord list"
  have f: "filter_small_segments flat_lib (linestring_of ?fc) DEFAULT_WIDTH = Inr ?fc"
    by (simp add: filter_small_segments_def positions_linestring_of filter_coords_def
        flat_distance_same_fst DEFAULT_WIDTH_def)
  have "geojson_linestring_to_poly flat_lib (linestring_of ?fc) DEFAULT_WIDTH
      = offset_polygon flat_lib (DEFAULT_WIDTH / 2) (2 * length ?fc)
          (replicate (2 * length ?fc + 1) Null) ?fc"
    by (rule linestring_single [OF f]) (simp_all add: explode_sharp_angles_def)
  also have "\<dots> = Inr (polygon_feature [Position (0, 225 / 2), Position (100, 225 / 2),
              Position (100, 175 / 2), Position (0, 175 / 2), Position (0, 225 / 2)])"
    by (simp add: offset_polygon_def flat_segment_normal_east set_item_def flat_simps
        eval_nat_numeral DEFAULT_WIDTH_def)
  finally show ?thesis .
qed

lemma corner_line_filter:
  "filter_small_segments flat_lib (linestring_of [(0, 0), (0, 100), (100, 100)]) 10
     = Inr [(0, 0), (0, 100), (100, 100)]"
  by (simp add: filter_small_segments_def positions_linestring_of filter_coords_def
      flat_distance_same_snd flat_distance_same_fst)

lemma corner_line_explode:
  "explode_sharp_angles flat_lib [(0, 0), (0, 100), (100, 100)] 45
     = [[(0, 0), (0, 100)], [(0, 100)], [(0, 100), (100, 100)]]"
  by (simp add: explode_sharp_angles_def flat_angle_corner)

lemma corner_line:
  "geojson_linestring_to_poly flat_lib (linestring_of [(0, 0), (0, 100), (100, 100)]) 10
     = Inr (multipolygon_feature
         [Array [Array [Position (- 25 / 2, 0), Position (- 25 / 2, 100), Position (25 / 2, 100),
              Position (25 / 2, 0), Position (- 25 / 2, 0)]],
          get_coords (point_to_square flat_lib (0, 100) DEFAULT_WIDTH),
          Array [Array [Position (0, 225 / 2), Position (100, 225 / 2), Position (100, 175 / 2),
              Position (0, 175 / 2), Position (0, 225 / 2)]]])"
  by (subst linestring_split [OF corner_line_filter])
     (simp_all add: corner_line_explode piece_north piece_corner piece_east
        polygon_feature_def point_to_square_def Let_def flat_simps)

section \<open>Geodesy: the angular delta\<close>

text \<open>
  C9. For all bearings \<open>a\<close> and \<open>b\<close> in [0, 360), \<^verbatim>\<open>abs_angular_delta\<close> returns
  \<open>min |a - b| (360 - |a - b|)\<close>, the result lies in [0, 180], and the operation is
  symmetric in its arguments.
\<close>

theorem abs_angular_delta_min_range_sym:
  assumes "0 \<le> a" and "a < 360" and "0 \<le> b" and "b < 360"
  shows "abs_angular_delta a b = min \<bar>a - b\<bar> (360 - \<bar>a - b\<bar>)
       \<and> 0 \<le> abs_angular_delta a b \<and> abs_angular_delta a b \<le> 180
       \<and> abs_angular_delta a b = abs_angular_delta b a"
  using assms by (auto simp: abs_angular_delta_def Let_def min_def abs_minus_commute)

theorem abs_angular_delta_min_range_sym_witness:
  "abs_angular_delta 350 10 = min \<bar>350 - 10\<bar> (360 - \<bar>350 - 10\<bar>)
       \<and> 0 \<le> abs_angular_delta 350 10 \<and> abs_angular_delta 350 10 \<le> 180
       \<and> abs_angular_delta 350 10 = abs_angular_delta 10 350
       \<and> abs_angular_delta 350 10 = 20"
  using abs_angular_delta_min_range_sym [of 350 10]
  by (simp add: abs_angular_delta_def)

section \<open>Dispatcher: passthrough and unsupported kinds\<close>

text \<open>
  C10. For every feature whose geometry kind is Polygon or MultiPolygon, and every width
  and library, \<^verbatim>\<open>convert_to_geojson_poly\<close> returns exactly the input geometry: nothing is
  buffered, filtered or transformed.
\<close>

theorem convert_polygon_identity:
  assumes "gtype geom = ''Polygon'' \<or> gtype geom = ''MultiPolygon''"
  shows "convert_to_geojson_poly lib (Feature geom) width = Inr (Geometry geom)"
  using assms by auto

theorem convert_polygon_identity_witness:
  "convert_to_geojson_poly flat_lib
     (Feature \<lparr>gtype = ''Polygon'', coordinates = Array [Array [Position (0, 0), Position (0, 1), Position (1, 1), Position (0, 0)]]\<rparr>) 10
   = Inr (Geometry \<lparr>gtype = ''Polygon'', coordinates = Array [Array [Position (0, 0), Position (0, 1), Position (1, 1), Position (0, 0)]]\<rparr>)"
  using convert_polygon_identity [of "\<lparr>gtype = ''Polygon'', coordinates = Array [Array [Position (0, 0), Position (0, 1), Position (1, 1), Position (0, 0)]]\<rparr>" flat_lib 10]
  by simp

text \<open>
  C8. \<^verbatim>\<open>convert_to_geojson_poly\<close> raises the exception whose message names the geometry
  kind exactly when the kind is none of Point, LineString, Polygon and MultiPolygon (no
  other path of the dispatcher raises an \<open>Exception\<close> with any message). The result is then
  the error alone: a raise returns no geometry, and the functions are pure, so there is no
  state to modify.
\<close>

theorem unsupported_kind_iff:
  "(convert_to_geojson_poly lib (Feature geom) width
      = Inl (Exception (''Unsupported type: '' @ gtype geom)))
     = (gtype geom \<notin> {''Point'', ''LineString'', ''Polygon'', ''MultiPolygon''})
   \<and> (\<exists>msg. convert_to_geojson_poly lib (Feature geom) width = Inl (Exception msg))
     = (gtype geom \<notin> {''Point'', ''LineString'', ''Polygon'', ''MultiPolygon''})"
  using geojson_linestring_to_poly_error [of lib "Geometry geom" width]
        geojson_point_to_poly_error [of lib "Geometry geom" width]
  by (auto simp: Let_def)

theorem unsupported_kind_iff_witness:
  "convert_to_geojson_poly flat_lib
     (Feature \<lparr>gtype = ''GeometryCollection'', coordinates = Null\<rparr>) 10
   = Inl (Exception ''Unsupported type: GeometryCollection'')"
  using unsupported_kind_iff [of flat_lib "\<lparr>gtype = ''GeometryCollection'', coordinates = Null\<rparr>" 10]
  by simp

section \<open>Sharp-angle splitter\<close>

text \<open>
  C7. For every three-point sequence \<open>[p0, p1, p2]\<close> whose turn angle at \<open>p1\<close> exceeds the
  threshold, \<^verbatim>\<open>explode_sharp_angles\<close> returns exactly the three pieces \<open>[p0, p1]\<close>,
  \<open>[p1]\<close>, \<open>[p1, p2]\<close>, in this order.
\<close>

theorem explode_three_sharp:
  assumes "angle_between_segments lib p0 p1 p2 > threshold"
  shows "explode_sharp_angles lib [p0, p1, p2] threshold = [[p0, p1], [p1], [p1, p2]]"
  using assms by (simp add: explode_sharp_angles_def Let_def)

theorem explode_three_sharp_witness:
  "angle_between_segments flat_lib (0, 0) (0, 100) (100, 100) > 45
   \<and> explode_sharp_angles flat_lib [(0, 0), (0, 100), (100, 100)] 45
       = [[(0, 0), (0, 100)], [(0, 100)], [(0, 100), (100, 100)]]"
  using explode_three_sharp [of 45 flat_lib "(0, 0)" "(0, 100)" "(100, 100)"]
  by (simp add: angle_between_segments_def flat_simps compass_def abs_angular_delta_def)

section \<open>Segment filter\<close>

text \<open>
  C6. For every line string (its coordinates a list of positions) and every minimum
  length, \<^verbatim>\<open>filter_small_segments\<close> returns the coordinates unchanged when there are fewer
  than two; otherwise it returns a subsequence of them, in the original order, that
  starts with the first coordinate, and that consists of exactly the coordinates that are
  \<open>retained\<close>: the first one, and every later one whose distance from the most recently
  retained coordinate is at least the minimum length.
\<close>

theorem filter_small_segments_retains:
  assumes "positions (get_coords linestring) = Inr coords"
  shows "\<exists>out. filter_small_segments lib linestring min_length = Inr out
           \<and> (if length coords < 2 then out = coords
              else subseq out coords \<and> out \<noteq> [] \<and> hd out = hd coords
                 \<and> out = map ((!) coords) (filter (retained lib min_length coords) [0..<length coords]))"
proof (cases "length coords < 2")
  case True
  with assms show ?thesis by (simp add: filter_small_segments_def filter_coords_def)
next
  case False
  then have "coords \<noteq> []" by auto
  with False assms show ?thesis
    using filter_coords_subseq [of lib coords min_length]
      filter_coords_hd [of coords lib min_length]
      filter_coords_retained [of lib coords min_length]
    by (simp add: filter_small_segments_def)
qed

theorem filter_small_segments_retains_witness:
  "positions (get_coords (linestring_of [(0, 0), (0, 10), (0, 30), (0, 35), (0, 60)]))
     = Inr [(0, 0), (0, 10), (0, 30), (0, 35), (0, 60)]
   \<and> filter_small_segments flat_lib (linestring_of [(0, 0), (0, 10), (0, 30), (0, 35), (0, 60)]) 25
     = Inr [(0, 0), (0, 30), (0, 60)]
   \<and> (\<exists>out. filter_small_segments flat_lib
               (linestring_of [(0, 0), (0, 10), (0, 30), (0, 35), (0, 60)]) 25 = Inr out
         \<and> (if length [(0, 0), (0, 10), (0, 30), (0, 35), (0, 60 :: real) :: coord] < 2
            then out = [(0, 0), (0, 10), (0, 30), (0, 35), (0, 60)]
            else subseq out [(0, 0), (0, 10), (0, 30), (0, 35), (0, 60)] \<and> out \<noteq> []
               \<and> hd out = hd [(0, 0), (0, 10), (0, 30), (0, 35), (0, 60)]
               \<and> out = map ((!) [(0, 0), (0, 10), (0, 30), (0, 35), (0, 60)])
                          (filter (retained flat_lib 25 [(0, 0), (0, 10), (0, 30), (0, 35), (0, 60)])
                             [0..<length [(0, 0), (0, 10), (0, 30), (0, 35), (0, 60 :: real) :: coord]])))"
proof -
  let ?cs = "[(0, 0), (0, 10), (0, 30), (0, 35), (0, 60)] :: coord list"
  have h: "positions (get_coords (linestring_of ?cs)) = Inr ?cs"
    by (rule positions_linestring_of)
  have e: "filter_small_segments flat_lib (linestring_of ?cs) 25 = Inr [(0, 0), (0, 30), (0, 60)]"
    by (simp add: filter_small_segments_def h filter_coords_def flat_distance_same_snd)
  show ?thesis
    by (rule conjI [OF h conjI [OF e filter_small_segments_retains [OF h]]])
qed

section \<open>Line buffer: fewer than two points after filtering\<close>

text \<open>
  C4. For every line string, the empty one included, if fewer than two points remain
  after filtering, the line buffer returns a point-buffer square rather than failing. The
  guard \<^verbatim>\<open>len(filtered_coords) < 2\<close> admits the empty list, and the branch then reads
  \<^verbatim>\<open>filtered_coords[0]\<close>: on a line string without coordinates the line buffer, and the
  dispatcher that calls it, raise \<open>IndexError\<close>, for every library and every width.
\<close>

theorem empty_linestring_index_error:
  "positions (get_coords (linestring_of [])) = Inr []
   \<and> filter_small_segments lib (linestring_of []) width = Inr []
   \<and> geojson_linestring_to_poly lib (linestring_of []) width = Inl IndexError
   \<and> convert_to_geojson_poly lib
        (Feature \<lparr>gtype = ''LineString'', coordinates = Array []\<rparr>) width = Inl IndexError"
proof -
  have f: "filter_small_segments lib (linestring_of []) width = Inr []"
    by (simp add: filter_small_segments_def linestring_of_def filter_coords_def)
  have g: "geojson_linestring_to_poly lib (linestring_of []) width = Inl IndexError"
    using linestring_short [OF f] by simp
  from f g show ?thesis by (simp add: linestring_of_def)
qed

text \<open>
  On a coordinate list that is not empty the branch does return: exactly one point
  remains, the first coordinate, and the result is its square for the given width.
\<close>

lemma short_line_to_square:
  assumes "positions (get_coords linestring) = Inr coords"
    and "coords \<noteq> []"
    and "filter_small_segments lib linestring width = Inr filtered_coords"
    and "length filtered_coords < 2"
  shows "filtered_coords = [coords ! 0]
       \<and> geojson_linestring_to_poly lib linestring width
           = Inr (point_to_square lib (coords ! 0) width)"
proof -
  from assms(1,3) have fc: "filtered_coords = filter_coords lib coords width"
    by (simp add: filter_small_segments_def)
  with filter_coords_hd [OF assms(2), of lib width]
  have "filtered_coords \<noteq> []" and "hd filtered_coords = coords ! 0"
    using assms(2) by (simp_all add: hd_conv_nth)
  with assms(4) have one: "filtered_coords = [coords ! 0]"
    by (cases filtered_coords) auto
  with linestring_short [OF assms(3,4)] show ?thesis by simp
qed

lemma short_line_to_square_example:
  "positions (get_coords (linestring_of [(0, 0), (0, 10)])) = Inr [(0, 0), (0, 10)]
   \<and> filter_small_segments flat_lib (linestring_of [(0, 0), (0, 10)]) 25 = Inr [(0, 0)]
   \<and> length [(0, 0) :: coord] < 2
   \<and> geojson_linestring_to_poly flat_lib (linestring_of [(0, 0), (0, 10)]) 25
       = Inr (point_to_square flat_lib (0, 0) 25)
   \<and> point_to_square flat_lib (0, 0) 25
       = polygon_feature [Position (- 25 / 2, - 25 / 2), Position (25 / 2, - 25 / 2),
           Position (25 / 2, 25 / 2), Position (- 25 / 2, 25 / 2), Position (- 25 / 2, - 25 / 2)]"
proof -
  let ?cs = "[(0, 0), (0, 10)] :: coord list"
  have h: "positions (get_coords (linestring_of ?cs)) = Inr ?cs"
    by (rule positions_linestring_of)
  have f: "filter_small_segments flat_lib (linestring_of ?cs) 25 = Inr [(0, 0)]"
    by (simp add: filter_small_segments_def h filter_coords_def flat_distance_same_snd)
  have l: "length [(0, 0) :: coord] < 2" by simp
  have "geojson_linestring_to_poly flat_lib (linestring_of ?cs) 25
      = Inr (point_to_square flat_lib (0, 0) 25)"
    using short_line_to_square [OF h _ f l] by simp
  moreover have "point_to_square flat_lib (0, 0) 25
       = polygon_feature [Position (- 25 / 2, - 25 / 2), Position (25 / 2, - 25 / 2),
           Position (25 / 2, 25 / 2), Position (- 25 / 2, 25 / 2), Position (- 25 / 2, - 25 / 2)]"
    by (simp add: point_to_square_def flat_simps Let_def)
  ultimately show ?thesis using h f l by simp
qed

section \<open>Sharp-angle splitter: what is emitted at a sharp vertex\<close>

text \<open>
  C3, as stated, says that the piece closed at a sharp vertex \<open>v\<close> does not contain \<open>v\<close>.
  The current line always ends with the middle point of the triple being examined, so
  the piece that is closed ends with \<open>v\<close>.
\<close>

theorem emitted_piece_contains_vertex_counterexample:
  "45 < angle_between_segments flat_lib (0, 50) (0, 100) (100, 100)
   \<and> explode_sharp_angles flat_lib [(0, 0), (0, 50), (0, 100), (100, 100)] 45
       = [[(0, 0), (0, 50), (0, 100)], [(0, 100)], [(0, 100), (100, 100)]]
   \<and> (0, 100) \<in> set (explode_sharp_angles flat_lib [(0, 0), (0, 50), (0, 100), (100, 100)] 45 ! 0)"
  by (simp add: explode_sharp_angles_def flat_angle_north_east flat_angle_north_north)

text \<open>
  C3, amended. For every coordinate sequence of at least three points and every
  threshold, wherever the turn angle at a vertex \<open>v\<close> (the middle of three consecutive
  points) exceeds the threshold, the result contains three consecutive pieces: a piece
  of at least two points that ends with \<open>v\<close>, the single-point piece \<open>[v]\<close>, and a piece
  that begins with \<open>v\<close> followed by the point after it.
\<close>

theorem explode_at_sharp_vertex:
  assumes "3 \<le> length coords" and "i + 2 < length coords"
    and "threshold < angle_between_segments lib (coords ! i) (coords ! (i + 1)) (coords ! (i + 2))"
  shows "\<exists>pre line rest post.
      explode_sharp_angles lib coords threshold
        = pre @ [line @ [coords ! (i + 1)], [coords ! (i + 1)],
                 coords ! (i + 1) # coords ! (i + 2) # rest] @ post
      \<and> line \<noteq> []"
proof -
  from assms(1) have "explode_sharp_angles lib coords threshold
      = explode_loop lib threshold [] [coords ! 0, coords ! 1] coords"
    by (simp add: explode_sharp_angles_def)
  moreover have "\<exists>pre line rest post.
      explode_loop lib threshold [] [coords ! 0, coords ! 1] coords
        = pre @ [line @ [coords ! (i + 1)], [coords ! (i + 1)],
                 coords ! (i + 1) # coords ! (i + 2) # rest] @ post
      \<and> line \<noteq> []"
    by (rule explode_loop_sharp [OF assms(2,3)]) simp_all
  ultimately show ?thesis by simp
qed

theorem explode_at_sharp_vertex_witness:
  "3 \<le> length [(0, 0), (0, 50), (0, 100), (100, 100 :: real) :: coord]
   \<and> 45 < angle_between_segments flat_lib (0, 50) (0, 100) (100, 100)
   \<and> (\<exists>pre line rest post.
        explode_sharp_angles flat_lib [(0, 0), (0, 50), (0, 100), (100, 100)] 45
          = pre @ [line @ [(0, 100)], [(0, 100)], (0, 100) # (100, 100) # rest] @ post
        \<and> line \<noteq> [])"
  using explode_at_sharp_vertex [of "[(0, 0), (0, 50), (0, 100), (100, 100)]" 1 45 flat_lib]
  by (simp add: flat_angle_north_east)

section \<open>Closure of the rings produced\<close>

text \<open>
  C5. Every ring produced by a buffering operation is closed: the ring of the point
  buffer, and every ring of a result of the point and line operations (the single ring of
  a polygon, and each ring of a multi-polygon produced after sharp-angle splitting, at any
  depth) has its first coordinate equal to its last, consists of positions only, and has
  at least four entries, whatever the number of input points. A result has at least one
  ring.
\<close>

theorem produced_rings_closed:
  "(\<exists>ring. rings (get_coords (point_to_square lib c w)) = [ring] \<and> closed_ring ring)
   \<and> (geojson_point_to_poly lib point w = Inr pres \<longrightarrow>
        rings (get_coords pres) \<noteq> [] \<and> (\<forall>r\<in>set (rings (get_coords pres)). closed_ring r))
   \<and> (geojson_linestring_to_poly lib linestring w = Inr lres \<longrightarrow>
        rings (get_coords lres) \<noteq> [] \<and> (\<forall>r\<in>set (rings (get_coords lres)). closed_ring r))"
proof (intro conjI impI)
  from point_to_square_closed [of lib c w] obtain ring
    where p: "point_to_square lib c w = polygon_feature ring" and c: "closed_ring ring" by blast
  then have "rings (get_coords (point_to_square lib c w)) = [ring]"
    using rings_polygon_feature [of ring] by (simp add: closed_ring_def)
  with c show "\<exists>ring. rings (get_coords (point_to_square lib c w)) = [ring] \<and> closed_ring ring"
    by blast
next
  assume "geojson_point_to_poly lib point w = Inr pres"
  then obtain c' where "pres = point_to_square lib c' w"
    by (auto simp: geojson_point_to_poly_def split: sum.splits)
  with point_to_square_closed [of lib c' w] closed_ring_polygon_feature
  show "rings (get_coords pres) \<noteq> []" and "\<forall>r\<in>set (rings (get_coords pres)). closed_ring r"
    by auto
next
  assume "geojson_linestring_to_poly lib linestring w = Inr lres"
  from linestring_rings_closed [OF this]
  show "rings (get_coords lres) \<noteq> []" and "\<forall>r\<in>set (rings (get_coords lres)). closed_ring r"
    by simp_all
qed

theorem produced_rings_closed_witness:
  "geojson_point_to_poly flat_lib (Geometry \<lparr>gtype = ''Point'', coordinates = Position (10, 20)\<rparr>) 10
     = Inr (polygon_feature [Position (5, 15), Position (15, 15), Position (15, 25),
              Position (5, 25), Position (5, 15)])
   \<and> geojson_linestring_to_poly flat_lib (linestring_of [(0, 0), (0, 100), (100, 100)]) 10
     = Inr (multipolygon_feature
         [Array [Array [Position (- 25 / 2, 0), Position (- 25 / 2, 100), Position (25 / 2, 100),
              Position (25 / 2, 0), Position (- 25 / 2, 0)]],
          get_coords (point_to_square flat_lib (0, 100) DEFAULT_WIDTH),
          Array [Array [Position (0, 225 / 2), Position (100, 225 / 2), Position (100, 175 / 2),
              Position (0, 175 / 2), Position (0, 225 / 2)]]])
   \<and> list_all closed_ring (rings (get_coords (polygon_feature [Position (5, 15), Position (15, 15),
         Position (15, 25), Position (5, 25), Position (5, 15)])))
   \<and> length (rings (get_coords (multipolygon_feature
         [Array [Array [Position (- 25 / 2, 0), Position (- 25 / 2, 100), Position (25 / 2, 100),
              Position (25 / 2, 0), Position (- 25 / 2, 0)]],
          get_coords (point_to_square flat_lib (0, 100) DEFAULT_WIDTH),
          Array [Array [Position (0, 225 / 2), Position (100, 225 / 2), Position (100, 175 / 2),
              Position (0, 175 / 2), Position (0, 225 / 2)]]]))) = 3
   \<and> list_all closed_ring (rings (get_coords (multipolygon_feature
         [Array [Array [Position (- 25 / 2, 0), Position (- 25 / 2, 100), Position (25 / 2, 100),
              Position (25 / 2, 0), Position (- 25 / 2, 0)]],
          get_coords (point_to_square flat_lib (0, 100) DEFAULT_WIDTH),
          Array [Array [Position (0, 225 / 2), Position (100, 225 / 2), Position (100, 175 / 2),
              Position (0, 175 / 2), Position (0, 225 / 2)]]])))"
proof -
  let ?pt = "Geometry \<lparr>gtype = ''Point'', coordinates = Position (10, 20)\<rparr>"
  let ?P = "polygon_feature [Position (5, 15), Position (15, 15), Position (15, 25),
              Position (5, 25), Position (5, 15)]"
  let ?ls = "linestring_of [(0, 0), (0, 100), (100, 100)]"
  let ?M = "multipolygon_feature
         [Array [Array [Position (- 25 / 2, 0), Position (- 25 / 2, 100), Position (25 / 2, 100),
              Position (25 / 2, 0), Position (- 25 / 2, 0)]],
          get_coords (point_to_square flat_lib (0, 100) DEFAULT_WIDTH),
          Array [Array [Position (0, 225 / 2), Position (100, 225 / 2), Position (100, 175 / 2),
              Position (0, 175 / 2), Position (0, 225 / 2)]]]"
  have p: "geojson_point_to_poly flat_lib ?pt 10 = Inr ?P"
    by (simp add: geojson_point_to_poly_def point_to_square_def flat_simps Let_def)
  have l: "geojson_linestring_to_poly flat_lib ?ls 10 = Inr ?M" by (rule corner_line)
  from produced_rings_closed [of flat_lib "(10, 20)" 10 ?pt ?P ?ls ?M] p l
  have "\<forall>r\<in>set (rings (get_coords ?P)). closed_ring r"
    and "\<forall>r\<in>set (rings (get_coords ?M)). closed_ring r"
    by blast+
  then have "list_all closed_ring (rings (get_coords ?P))"
    and "list_all closed_ring (rings (get_coords ?M))"
    by (simp_all only: list_all_iff)
  moreover have "length (rings (get_coords ?M)) = 3"
    by (simp add: multipolygon_feature_def point_to_square_def polygon_feature_def Let_def flat_simps)
  ultimately show ?thesis using p l by blast
qed

section \<open>Line buffer: the width used for the pieces of a split line\<close>

text \<open>
  C1 says that, when the splitter returns more than one piece, every piece is buffered
  with the width of the top-level call, so that a single-point piece becomes a square of
  that side. The recursive call of \<^verbatim>\<open>geojson_linestring_to_poly\<close> passes no width, so each
  piece is buffered with \<^verbatim>\<open>DEFAULT_WIDTH\<close> (25). On the flat instance, the line
  \<open>(0,0), (0,100), (100,100)\<close> buffered with width 10 gives three polygons offset by 12.5,
  the middle one the square of side 25 around the corner \<open>(0,100)\<close>, which differs from the
  square of side 10 around it.
\<close>

theorem split_pieces_default_width:
  "geojson_linestring_to_poly flat_lib (linestring_of [(0, 0), (0, 100), (100, 100)]) 10
     = Inr (multipolygon_feature
         [Array [Array [Position (- 25 / 2, 0), Position (- 25 / 2, 100), Position (25 / 2, 100),
              Position (25 / 2, 0), Position (- 25 / 2, 0)]],
          get_coords (point_to_square flat_lib (0, 100) DEFAULT_WIDTH),
          Array [Array [Position (0, 225 / 2), Position (100, 225 / 2), Position (100, 175 / 2),
              Position (0, 175 / 2), Position (0, 225 / 2)]]])
   \<and> get_coords (point_to_square flat_lib (0, 100) DEFAULT_WIDTH)
       = Array [Array [Position (- 25 / 2, 175 / 2), Position (25 / 2, 175 / 2),
           Position (25 / 2, 225 / 2), Position (- 25 / 2, 225 / 2), Position (- 25 / 2, 175 / 2)]]
   \<and> get_coords (point_to_square flat_lib (0, 100) 10)
       = Array [Array [Position (- 5, 95), Position (5, 95), Position (5, 105), Position (- 5, 105),
           Position (- 5, 95)]]
   \<and> get_coords (point_to_square flat_lib (0, 100) DEFAULT_WIDTH)
       \<noteq> get_coords (point_to_square flat_lib (0, 100) 10)"
  using corner_line
  by (simp add: point_to_square_def polygon_feature_def Let_def flat_simps DEFAULT_WIDTH_def)

section \<open>Line buffer: the offsets of a vertex\<close>

text \<open>
  C2, as stated, gives an interior vertex, in the backward chain, the normal of the
  segment that starts at it. One iteration of the loop writes both entries of a vertex
  with the normal of the segment that ends at it. On the flat instance, for the line
  \<open>(0,0), (0,100), (60,180)\<close> and width 10, the backward entry of the vertex \<open>(0,100)\<close>
  is \<open>(5,100)\<close>, its displacement by the normal of the first segment, and not \<open>(4,97)\<close>,
  its displacement by the normal of the second.
\<close>

theorem backward_offset_counterexample:
  "filter_small_segments flat_lib (linestring_of [(0, 0), (0, 100), (60, 180)]) 10
     = Inr [(0, 0), (0, 100), (60, 180)]
   \<and> explode_sharp_angles flat_lib [(0, 0), (0, 100), (60, 180)] 45 = [[(0, 0), (0, 100), (60, 180)]]
   \<and> geojson_linestring_to_poly flat_lib (linestring_of [(0, 0), (0, 100), (60, 180)]) 10
       = Inr (polygon_feature [Position (- 5, 0), Position (- 5, 100), Position (56, 183),
                Position (64, 177), Position (5, 100), Position (5, 0), Position (- 5, 0)])
   \<and> [Position (- 5, 0), Position (- 5, 100), Position (56, 183),
        Position (64, 177), Position (5, 100), Position (5, 0), Position (- 5, 0)] ! 4
       = displaced flat_lib (0, 100) (- 5) (unit_normal flat_lib (0, 0) (0, 100))
   \<and> displaced flat_lib (0, 100) (- 5) (unit_normal flat_lib (0, 100) (60, 180)) = Position (4, 97)
   \<and> [Position (- 5, 0), Position (- 5, 100), Position (56, 183),
        Position (64, 177), Position (5, 100), Position (5, 0), Position (- 5, 0)] ! 4
       \<noteq> displaced flat_lib (0, 100) (- 5) (unit_normal flat_lib (0, 100) (60, 180))"
  using gentle_line_filter gentle_line_explode gentle_line
  by (simp add: displaced_def unit_normal_def flat_simps Let_def sqrt_10000)

text \<open>
  C2, amended. In the ring returned by the line buffer for a filtered sequence \<open>fc\<close> of
  \<open>L \<ge> 2\<close> points without a sharp turn, which has \<open>2 L + 1\<close> entries, every vertex
  \<open>fc ! k\<close> after the first (so every interior vertex) appears in the forward chain, at
  index \<open>k\<close>, displaced by \<open>+ width / 2\<close> times the unit normal of the segment ending at
  it, and in the backward chain, at index \<open>2 L - k - 1\<close>, displaced by \<open>- width / 2\<close>
  times the unit normal of that same segment.
\<close>

theorem line_buffer_offsets:
  assumes "filter_small_segments lib linestring width = Inr fc"
    and "2 \<le> length fc"
    and "\<not> 1 < length (explode_sharp_angles lib fc 45)"
    and "geojson_linestring_to_poly lib linestring width = Inr res"
  shows "\<exists>ring. res = polygon_feature ring \<and> length ring = 2 * length fc + 1
     \<and> (\<forall>k. 1 \<le> k \<and> k < length fc \<longrightarrow>
           ring ! k = displaced lib (fc ! k) (width / 2) (unit_normal lib (fc ! (k - 1)) (fc ! k))
         \<and> ring ! (2 * length fc - k - 1)
             = displaced lib (fc ! k) (- (width / 2)) (unit_normal lib (fc ! (k - 1)) (fc ! k)))"
proof -
  from assms(2) have short: "\<not> length fc < 2" by simp
  from linestring_single [OF assms(1) short assms(3)] assms(4)
  have "offset_polygon lib (width / 2) (2 * length fc) (replicate (2 * length fc + 1) Null) fc
      = Inr res" by simp
  from offset_polygon_result [OF this refl _ assms(2)] show ?thesis by auto
qed

theorem line_buffer_offsets_witness:
  "filter_small_segments flat_lib (linestring_of [(0, 0), (0, 100), (60, 180)]) 10
     = Inr [(0, 0), (0, 100), (60, 180)]
   \<and> 2 \<le> length [(0, 0), (0, 100), (60, 180 :: real) :: coord]
   \<and> \<not> 1 < length (explode_sharp_angles flat_lib [(0, 0), (0, 100), (60, 180)] 45)
   \<and> geojson_linestring_to_poly flat_lib (linestring_of [(0, 0), (0, 100), (60, 180)]) 10
       = Inr (polygon_feature [Position (- 5, 0), Position (- 5, 100), Position (56, 183),
                Position (64, 177), Position (5, 100), Position (5, 0), Position (- 5, 0)])
   \<and> (\<exists>ring. polygon_feature [Position (- 5, 0), Position (- 5, 100), Position (56, 183),
                Position (64, 177), Position (5, 100), Position (5, 0), Position (- 5, 0)]
              = polygon_feature ring
         \<and> length ring = 2 * length [(0, 0), (0, 100), (60, 180 :: real) :: coord] + 1
         \<and> (\<forall>k. 1 \<le> k \<and> k < length [(0, 0), (0, 100), (60, 180 :: real) :: coord] \<longrightarrow>
               ring ! k = displaced flat_lib ([(0, 0), (0, 100), (60, 180)] ! k) (10 / 2)
                            (unit_normal flat_lib ([(0, 0), (0, 100), (60, 180)] ! (k - 1))
                               ([(0, 0), (0, 100), (60, 180)] ! k))
             \<and> ring ! (2 * length [(0, 0), (0, 100), (60, 180 :: real) :: coord] - k - 1)
                 = displaced flat_lib ([(0, 0), (0, 100), (60, 180)] ! k) (- (10 / 2))
                            (unit_normal flat_lib ([(0, 0), (0, 100), (60, 180)] ! (k - 1))
                               ([(0, 0), (0, 100), (60, 180)] ! k))))"
proof -
  have h2: "2 \<le> length [(0, 0), (0, 100), (60, 180 :: real) :: coord]" by simp
  have h3: "\<not> 1 < length (explode_sharp_angles flat_lib [(0, 0), (0, 100), (60, 180)] 45)"
    by (simp add: gentle_line_explode)
  show ?thesis
    by (rule conjI [OF gentle_line_filter conjI [OF h2 conjI [OF h3 conjI [OF gentle_line
          line_buffer_offsets [OF gentle_line_filter h2 h3 gentle_line]]]]])
qed

end
